theory Spec2Isabelle
  imports Main "HOL-Library.Word"
begin

section \<open>AwsS3Store: data model\<close>

text \<open>
  The store keeps one zip archive per session in an S3 bucket. Everything the class does
  beyond computing a value is a call on the S3 client or a line on the console, so the
  model threads a world through every method: the state of the client (whatever stands
  behind \<open>s3Client.send\<close>) and the trace of events, in the order they happened.
  A rejected promise or a thrown exception is the \<open>Inl\<close> of a sum.
\<close>

type_synonym byte = "8 word"
type_synonym buffer = "byte list"

text \<open>A JavaScript error object, as far as the class reads it: \<open>err.name\<close>, \<open>err.message\<close>.\<close>

record jserror =
  name :: string
  message :: string

text \<open>The \<open>$metadata\<close> member of a response, and the response members the class reads.\<close>

record metadata =
  httpStatusCode :: "int option"

record response =
  meta :: "metadata option"
  UploadId :: "string option"
  ETag :: "string option"

record part =
  PartNumber :: nat
  PartETag :: "string option"

text \<open>
  The commands of \<open>@aws-sdk/client-s3\<close>, each with the members the class fills in.
  \<open>Bucket\<close> is \<open>this.bucketName\<close> as it stands (possibly undefined, hence an option).
  The SDK also offers \<open>AbortMultipartUploadCommand\<close>; the class never builds one.
\<close>

datatype command =
    ListObjectsCommand "string option"
  | PutObjectCommand "string option" string "buffer list" string string string
  | HeadObjectCommand "string option" string
  | GetObjectCommand "string option" string
  | DeleteObjectCommand "string option" string
  | CreateMultipartUploadCommand "string option" string string string
  | UploadPartCommand "string option" string "string option" nat buffer
  | CompleteMultipartUploadCommand "string option" string "string option" "part list"
  | AbortMultipartUploadCommand "string option" string "string option"

datatype event =
    ConsoleLog string
  | ConsoleLogError string jserror
  | DebugLog string
  | Sent command "jserror + response"

record 's world =
  clientState :: 's
  trace :: "event list"

text \<open>The client handle: \<open>send\<close> answers a command and moves the client's state.\<close>

type_synonym 's s3client = "'s \<Rightarrow> command \<Rightarrow> (jserror + response) \<times> 's"

record 's AwsS3Store =
  bucketName :: "string option"
  remoteDataPath :: "string option"
  s3Client :: "'s s3client option"
  debugEnabled :: bool

text \<open>The argument of the constructor, and the \<open>options\<close> object of the methods.\<close>

record 's storeOptions =
  optBucketName :: "string option"
  optRemoteDataPath :: "string option"
  optS3Client :: "'s s3client option"

record options =
  session :: "string option"
  path :: "string option"
  remoteFilePath :: "string option"

text \<open>
  What the class takes from the Node runtime: \<open>path.join\<close> (platform dependent), the
  files it can stat and stream (a file is the sequence of chunks its read stream
  delivers; its size is their total length; a missing file is the error \<open>statSync\<close>
  throws), and \<open>process.env.STORE_DEBUG\<close>.
\<close>

record runtime =
  pathJoin :: "string \<Rightarrow> string \<Rightarrow> string"
  fs :: "string \<Rightarrow> jserror + buffer list"
  STORE_DEBUG :: "string option"

section \<open>JavaScript primitives\<close>

text \<open>\<open>!x\<close> on a string or undefined: undefined and the empty string are falsy.\<close>

fun falsy :: "string option \<Rightarrow> bool" where
  "falsy None = True"
| "falsy (Some s) = (s = [])"

text \<open>A template literal \<open>`${x}`\<close> on a string or undefined.\<close>

fun template :: "string option \<Rightarrow> string" where
  "template None = ''undefined''"
| "template (Some s) = s"

definition typeError :: "string \<Rightarrow> jserror" where
  "typeError msg = \<lparr>name = ''TypeError'', message = msg\<rparr>"

definition consoleLog :: "string \<Rightarrow> 's world \<Rightarrow> 's world" where
  "consoleLog msg w = w\<lparr>trace := trace w @ [ConsoleLog msg]\<rparr>"

definition consoleLogError :: "string \<Rightarrow> jserror \<Rightarrow> 's world \<Rightarrow> 's world" where
  "consoleLogError msg err w = w\<lparr>trace := trace w @ [ConsoleLogError msg err]\<rparr>"

text \<open>\<open>.replace(/\\/g, '/')\<close>: every backslash becomes a forward slash.\<close>

definition backslash :: char where
  "backslash = CHR 0x5C"

definition replaceBackslashes :: "string \<Rightarrow> string" where
  "replaceBackslashes s = map (\<lambda>c. if c = backslash then CHR ''/'' else c) s"

text \<open>
  \<open>this.s3Client.send(command)\<close>: the call is recorded with its outcome. On an
  undefined client the member access throws a TypeError and nothing is sent.
\<close>

definition send :: "'s AwsS3Store \<Rightarrow> command \<Rightarrow> 's world \<Rightarrow> (jserror + response) \<times> 's world" where
  "send store cmd w =
     (case s3Client store of
        None \<Rightarrow> (Inl (typeError ''Cannot read properties of undefined (reading send)''), w)
      | Some client \<Rightarrow>
          (let (r, s') = client (clientState w) cmd
           in (r, \<lparr>clientState = s', trace = trace w @ [Sent cmd r]\<rparr>)))"

section \<open>The class\<close>

definition debugLog :: "'s AwsS3Store \<Rightarrow> string \<Rightarrow> 's world \<Rightarrow> 's world" where
  "debugLog store msg w =
     (if debugEnabled store then w\<lparr>trace := trace w @ [DebugLog msg]\<rparr> else w)"

text \<open>The constructor; called without an argument it destructures \<open>{}\<close>.\<close>

definition emptyStoreOptions :: "'s storeOptions" where
  "emptyStoreOptions = \<lparr>optBucketName = None, optRemoteDataPath = None, optS3Client = None\<rparr>"

definition constructor :: "runtime \<Rightarrow> 's storeOptions option \<Rightarrow> jserror + 's AwsS3Store" where
  "constructor rt arg =
     (let opts = (case arg of None \<Rightarrow> emptyStoreOptions | Some given \<Rightarrow> given) in
      if falsy (optBucketName opts) then
        Inl \<lparr>name = ''Error'', message = ''A valid bucket name is required for AwsS3Store.''\<rparr>
      else if falsy (optRemoteDataPath opts) then
        Inl \<lparr>name = ''Error'', message = ''A valid remote dir path is required for AwsS3Store.''\<rparr>
      else if optS3Client opts = None then
        Inl \<lparr>name = ''Error'', message = ''A valid S3Client instance is required for AwsS3Store.''\<rparr>
      else
        Inr \<lparr>bucketName = optBucketName opts,
             remoteDataPath = optRemoteDataPath opts,
             s3Client = optS3Client opts,
             debugEnabled = (STORE_DEBUG rt = Some ''true'')\<rparr>)"

text \<open>The checks on the probe's answer, in the order the method makes them.\<close>

definition probeOk :: "response \<Rightarrow> bool" where
  "probeOk result =
     (case meta result of
        None \<Rightarrow> False
      | Some m \<Rightarrow>
          (case httpStatusCode m of
             None \<Rightarrow> False
           | Some code \<Rightarrow> if code = 0 then False else if code \<noteq> 200 then False else True))"

definition isValidConfig :: "'s AwsS3Store \<Rightarrow> options \<Rightarrow> 's world \<Rightarrow> bool \<times> 's world" where
  "isValidConfig store opts w =
     (if falsy (session opts) then
        (False, consoleLog ''Error: A valid session is required for AwsS3Store.'' w)
      else if falsy (bucketName store) then
        (False, consoleLog ''Error: A valid bucket name is required for AwsS3Store.'' w)
      else if falsy (remoteDataPath store) then
        (False, consoleLog ''Error: A valid remote dir path is required for AwsS3Store.'' w)
      else if s3Client store = None then
        (False, consoleLog ''Error: A valid S3Client instance is required for AwsS3Store.'' w)
      else
        (case send store (ListObjectsCommand (bucketName store)) w of
           (Inr result, w') \<Rightarrow> (probeOk result, w')
         | (Inl error, w') \<Rightarrow>
             (True, consoleLogError ''Error: Invalid AwsS3Store configuration'' error w')))"

text \<open>
  \<open>path.join(this.remoteDataPath, `${options.session}.zip`).replace(/\\/g, '/')\<close>.
  \<open>path.join\<close> throws a TypeError on an argument that is not a string.
\<close>

definition deriveKey :: "(string \<Rightarrow> string \<Rightarrow> string) \<Rightarrow> string \<Rightarrow> string \<Rightarrow> string" where
  "deriveKey join base sessionId = replaceBackslashes (join base (sessionId @ ''.zip''))"

definition remoteKey :: "runtime \<Rightarrow> 's AwsS3Store \<Rightarrow> options \<Rightarrow> jserror + string" where
  "remoteKey rt store opts =
     (case remoteDataPath store of
        None \<Rightarrow> Inl (typeError ''The path argument must be of type string. Received undefined'')
      | Some base \<Rightarrow> Inr (deriveKey (pathJoin rt) base (template (session opts))))"

definition notFound :: "jserror \<Rightarrow> bool" where
  "notFound err = (name err = ''NoSuchKey'' \<or> name err = ''NotFound'')"

definition quoted :: "string \<Rightarrow> string" where
  "quoted s = [CHR 0x27] @ s @ [CHR 0x27]"

text \<open>\<open>sessionExists\<close> resolves to true, false or undefined (\<open>None\<close>).\<close>

definition sessionExists ::
  "runtime \<Rightarrow> 's AwsS3Store \<Rightarrow> options \<Rightarrow> 's world \<Rightarrow> (jserror + bool option) \<times> 's world" where
  "sessionExists rt store opts w0 =
     (let w1 = debugLog store ''[METHOD: sessionExists] Triggered.'' w0;
          (valid, w2) = isValidConfig store opts w1
      in if valid = False then (Inr None, w2)
         else
           (case remoteKey rt store opts of
              Inl thrown \<Rightarrow> (Inl thrown, w2)
            | Inr key \<Rightarrow>
                (case send store (HeadObjectCommand (bucketName store) key) w2 of
                   (Inr found, w3) \<Rightarrow>
                     (Inr (Some True),
                      debugLog store (''[METHOD: sessionExists] File found. PATH='' @ quoted key @ ''.'') w3)
                 | (Inl err, w3) \<Rightarrow>
                     if notFound err then
                       (Inr (Some False),
                        debugLog store (''[METHOD: sessionExists] File not found. PATH='' @ quoted key @ ''.'') w3)
                     else
                       (Inr None,
                        debugLog store (''[METHOD: sessionExists] Error: '' @ message err) w3))))"

text \<open>
  The part-size threshold of \<open>save\<close>, and the size up to which it uploads in one put
  (the source writes the second one inline).
\<close>

definition partSize :: nat where
  "partSize = 1024 * 1024 * 20"

definition singleUploadLimit :: nat where
  "singleUploadLimit = 1024 * 1024 * 1024 * 4"

text \<open>
  Uploading \<open>Buffer.concat(buffer)\<close> as part \<open>partNumber\<close> and pushing its entry on
  \<open>parts\<close>; the source has this block twice, inside the stream loop and after it.
\<close>

definition uploadPart ::
  "'s AwsS3Store \<Rightarrow> string \<Rightarrow> string option \<Rightarrow> nat \<Rightarrow> part list \<Rightarrow> buffer list \<Rightarrow> 's world
     \<Rightarrow> (jserror + part list) \<times> 's world" where
  "uploadPart store key uploadId partNumber parts buffer w =
     (case send store (UploadPartCommand (bucketName store) key uploadId partNumber (concat buffer)) w of
        (Inl error, w') \<Rightarrow> (Inl error, w')
      | (Inr uploadPartResponse, w') \<Rightarrow>
          (Inr (parts @ [\<lparr>PartNumber = partNumber, PartETag = ETag uploadPartResponse\<rparr>]), w'))"

text \<open>
  \<open>for await (const chunk of fileStream)\<close>, on the loop's variables
  \<open>(partNumber, parts, buffer)\<close>.
\<close>

fun streamLoop ::
  "'s AwsS3Store \<Rightarrow> string \<Rightarrow> string option \<Rightarrow> buffer list \<Rightarrow> nat \<times> part list \<times> buffer list
     \<Rightarrow> 's world \<Rightarrow> (jserror + nat \<times> part list \<times> buffer list) \<times> 's world" where
  "streamLoop store key uploadId [] vars w = (Inr vars, w)"
| "streamLoop store key uploadId (chunk # rest) (partNumber, parts, buffer) w =
     (let buffer' = buffer @ [chunk];
          bufferSize = length (concat buffer')
      in if bufferSize \<ge> partSize then
           (case uploadPart store key uploadId partNumber parts buffer' w of
              (Inl error, w') \<Rightarrow> (Inl error, w')
            | (Inr parts', w') \<Rightarrow>
                streamLoop store key uploadId rest (partNumber + 1, parts', []) w')
         else streamLoop store key uploadId rest (partNumber, parts, buffer') w)"

definition multipartUpload ::
  "'s AwsS3Store \<Rightarrow> string \<Rightarrow> string \<Rightarrow> buffer list \<Rightarrow> 's world \<Rightarrow> (jserror + unit) \<times> 's world" where
  "multipartUpload store key file fileStream w0 =
     (let w1 = consoleLog (''[S3 Store] Uploading Multiepart File '' @ file) w0 in
      case send store (CreateMultipartUploadCommand (bucketName store) key ''private'' ''application/zip'') w1 of
        (Inl error, w2) \<Rightarrow> (Inl error, w2)
      | (Inr createMultipartUpload, w2) \<Rightarrow>
          (let uploadId = UploadId createMultipartUpload in
           case streamLoop store key uploadId fileStream (1, [], []) w2 of
             (Inl error, w3) \<Rightarrow> (Inl error, w3)
           | (Inr (partNumber, parts, buffer), w3) \<Rightarrow>
               (case (if length buffer > 0
                      then uploadPart store key uploadId partNumber parts buffer w3
                      else (Inr parts, w3)) of
                  (Inl error, w4) \<Rightarrow> (Inl error, w4)
                | (Inr parts', w4) \<Rightarrow>
                    (case send store (CompleteMultipartUploadCommand (bucketName store) key uploadId parts') w4 of
                       (Inl error, w5) \<Rightarrow> (Inl error, w5)
                     | (Inr completed, w5) \<Rightarrow> (Inr (), w5)))))"

text \<open>The body of the \<open>try\<close> block of \<open>save\<close>.\<close>

definition transfer ::
  "runtime \<Rightarrow> 's AwsS3Store \<Rightarrow> options \<Rightarrow> string \<Rightarrow> 's world \<Rightarrow> (jserror + unit) \<times> 's world" where
  "transfer rt store opts key w0 =
     (let file = template (session opts) @ ''.zip'' in
      case fs rt file of
        Inl error \<Rightarrow> (Inl error, w0)
      | Inr fileStream \<Rightarrow>
          (let fileSize = length (concat fileStream) in
           if fileSize \<le> singleUploadLimit then
             (let w1 = consoleLog (''[S3 Store] Uploading Single File '' @ file) w0 in
              case send store (PutObjectCommand (bucketName store) key fileStream
                                 ''application/zip'' ''Enabled'' ''gzip'') w1 of
                (Inl error, w2) \<Rightarrow> (Inl error, w2)
              | (Inr stored, w2) \<Rightarrow> (Inr (), w2))
           else multipartUpload store key file fileStream w0))"

text \<open>
  \<open>save\<close> also sets \<open>options.remoteFilePath\<close> on the caller's object, so the model
  returns the options next to the outcome.
\<close>

definition save ::
  "runtime \<Rightarrow> 's AwsS3Store \<Rightarrow> options \<Rightarrow> 's world \<Rightarrow> (jserror + unit) \<times> options \<times> 's world" where
  "save rt store opts w0 =
     (let w1 = debugLog store ''[METHOD: save] Triggered.'' w0;
          (valid, w2) = isValidConfig store opts w1
      in if valid = False then (Inr (), opts, w2)
         else
           (case remoteKey rt store opts of
              Inl thrown \<Rightarrow> (Inl thrown, opts, w2)
            | Inr key \<Rightarrow>
                (let opts' = opts\<lparr>remoteFilePath := Some key\<rparr> in
                 case transfer rt store opts' key w2 of
                   (Inr done, w3) \<Rightarrow>
                     (Inr (), opts',
                      debugLog store (''[METHOD: save] File saved. PATH='' @ quoted key @ ''.'') w3)
                 | (Inl error, w3) \<Rightarrow>
                     (Inl error, opts',
                      debugLog store (''[METHOD: save] Error: '' @ message error) w3))))"

text \<open>The \<open>catch\<close> block of \<open>delete\<close>: both branches return.\<close>

definition deleteCatch :: "'s AwsS3Store \<Rightarrow> string \<Rightarrow> jserror \<Rightarrow> 's world \<Rightarrow> (jserror + unit) \<times> 's world" where
  "deleteCatch store key err w =
     (if notFound err then
        (Inr (), debugLog store (''[METHOD: delete] File not found. PATH='' @ quoted key @ ''.'') w)
      else (Inr (), debugLog store (''[METHOD: delete] Error: '' @ message err) w))"

definition delete ::
  "runtime \<Rightarrow> 's AwsS3Store \<Rightarrow> options \<Rightarrow> 's world \<Rightarrow> (jserror + unit) \<times> 's world" where
  "delete rt store opts w0 =
     (let w1 = debugLog store ''[METHOD: delete] Triggered.'' w0;
          (valid, w2) = isValidConfig store opts w1
      in if valid = False then (Inr (), w2)
         else
           (case remoteKey rt store opts of
              Inl thrown \<Rightarrow> (Inl thrown, w2)
            | Inr key \<Rightarrow>
                (case send store (HeadObjectCommand (bucketName store) key) w2 of
                   (Inl err, w3) \<Rightarrow> deleteCatch store key err w3
                 | (Inr found, w3) \<Rightarrow>
                     (case send store (DeleteObjectCommand (bucketName store) key) w3 of
                        (Inl err, w4) \<Rightarrow> deleteCatch store key err w4
                      | (Inr deleted, w4) \<Rightarrow>
                          (Inr (),
                           debugLog store (''[METHOD: delete] File deleted. PATH='' @ quoted key @ ''.'') w4)))))"

section \<open>Reading a trace\<close>

text \<open>The commands sent, in order, with and without their outcomes.\<close>

fun sends :: "event list \<Rightarrow> (command \<times> (jserror + response)) list" where
  "sends [] = []"
| "sends (Sent cmd r # evs) = (cmd, r) # sends evs"
| "sends (ev # evs) = sends evs"

definition sentCommands :: "event list \<Rightarrow> command list" where
  "sentCommands evs = map fst (sends evs)"

text \<open>What a method sent, with the outcomes: what it added to the trace it started on.\<close>

definition sentBy :: "'s world \<Rightarrow> 's world \<Rightarrow> (command \<times> (jserror + response)) list" where
  "sentBy w w' = drop (length (sends (trace w))) (sends (trace w'))"

text \<open>
  A stretch of a method, from the world \<open>w\<close> to the world \<open>w'\<close>, ran the commands
  \<open>cmds\<close> with the result \<open>r\<close>: it sent them in order and nothing else, each one
  answered; when the result is an error, it is the answer to the last command sent and
  the commands after that one were not sent; otherwise all were sent.
\<close>

definition ran :: "'s world \<Rightarrow> 's world \<Rightarrow> command list \<Rightarrow> jserror + 'a \<Rightarrow> bool" where
  "ran w w' cmds r =
     (\<exists>resps. sends (trace w')
                = sends (trace w)
                    @ zip cmds (map Inr resps @ (case r of Inl e \<Rightarrow> [Inl e] | Inr v \<Rightarrow> []))
        \<and> (case r of Inl e \<Rightarrow> length resps < length cmds | Inr v \<Rightarrow> length resps = length cmds))"

fun isPut :: "command \<Rightarrow> bool" where
  "isPut (PutObjectCommand b k body ct acc enc) = True"
| "isPut cmd = False"

fun isCreate :: "command \<Rightarrow> bool" where
  "isCreate (CreateMultipartUploadCommand b k acl ct) = True"
| "isCreate cmd = False"

fun isUploadPart :: "command \<Rightarrow> bool" where
  "isUploadPart (UploadPartCommand b k u n body) = True"
| "isUploadPart cmd = False"

fun isComplete :: "command \<Rightarrow> bool" where
  "isComplete (CompleteMultipartUploadCommand b k u ps) = True"
| "isComplete cmd = False"

fun isAbort :: "command \<Rightarrow> bool" where
  "isAbort (AbortMultipartUploadCommand b k u) = True"
| "isAbort cmd = False"

fun isDelete :: "command \<Rightarrow> bool" where
  "isDelete (DeleteObjectCommand b k) = True"
| "isDelete cmd = False"

text \<open>The part numbers and the bodies given to \<open>UploadPartCommand\<close>, in order.\<close>

fun partNumbers :: "command list \<Rightarrow> nat list" where
  "partNumbers [] = []"
| "partNumbers (UploadPartCommand b k u n body # cmds) = n # partNumbers cmds"
| "partNumbers (cmd # cmds) = partNumbers cmds"

fun partBodies :: "command list \<Rightarrow> buffer list" where
  "partBodies [] = []"
| "partBodies (UploadPartCommand b k u n body # cmds) = body # partBodies cmds"
| "partBodies (cmd # cmds) = partBodies cmds"

text \<open>The part lists given to \<open>CompleteMultipartUploadCommand\<close>, and the bodies put in one shot.\<close>

fun completedParts :: "command list \<Rightarrow> part list list" where
  "completedParts [] = []"
| "completedParts (CompleteMultipartUploadCommand b k u ps # cmds) = ps # completedParts cmds"
| "completedParts (cmd # cmds) = completedParts cmds"

fun putBodies :: "command list \<Rightarrow> buffer list list" where
  "putBodies [] = []"
| "putBodies (PutObjectCommand b k body ct acc enc # cmds) = body # putBodies cmds"
| "putBodies (cmd # cmds) = putBodies cmds"

section \<open>The buffer of the stream loop\<close>

text \<open>
  The buffer arithmetic of \<open>streamLoop\<close> on its own, as the loop does it: the bodies it
  flushes as parts, and the buffer it leaves when the stream ends, from the buffer it
  starts with and the chunks of the stream.
\<close>

fun loopParts :: "buffer list \<Rightarrow> buffer list \<Rightarrow> buffer list" where
  "loopParts buffer [] = []"
| "loopParts buffer (chunk # rest) =
     (if length (concat (buffer @ [chunk])) \<ge> partSize
      then concat (buffer @ [chunk]) # loopParts [] rest
      else loopParts (buffer @ [chunk]) rest)"

fun loopRest :: "buffer list \<Rightarrow> buffer list \<Rightarrow> buffer list" where
  "loopRest buffer [] = buffer"
| "loopRest buffer (chunk # rest) =
     (if length (concat (buffer @ [chunk])) \<ge> partSize
      then loopRest [] rest
      else loopRest (buffer @ [chunk]) rest)"

text \<open>
  The bodies of all the parts of a stream, the remainder last when the loop leaves one,
  and the commands that upload a list of bodies under consecutive part numbers.
\<close>

definition partsOf :: "buffer list \<Rightarrow> buffer list" where
  "partsOf chunks =
     loopParts [] chunks
       @ (if length (loopRest [] chunks) > 0 then [concat (loopRest [] chunks)] else [])"

fun uploadCommands ::
  "string option \<Rightarrow> string \<Rightarrow> string option \<Rightarrow> nat \<Rightarrow> buffer list \<Rightarrow> command list" where
  "uploadCommands b key uploadId partNumber [] = []"
| "uploadCommands b key uploadId partNumber (body # bodies) =
     UploadPartCommand b key uploadId partNumber body
       # uploadCommands b key uploadId (partNumber + 1) bodies"

text \<open>
  A read stream that delivers chunks of the size \<open>chunkSize\<close>: every chunk but the
  last has that size, and the last one is not empty and not larger.
\<close>

fun chunkedBy :: "nat \<Rightarrow> buffer list \<Rightarrow> bool" where
  "chunkedBy chunkSize [] = True"
| "chunkedBy chunkSize [chunk] = (0 < length chunk \<and> length chunk \<le> chunkSize)"
| "chunkedBy chunkSize (chunk # rest) =
     (length chunk = chunkSize \<and> chunkedBy chunkSize rest)"

text \<open>
  \<open>fs.createReadStream(path)\<close> as \<open>save\<close> calls it, without options: Node reads the
  file in order with its default \<open>highWaterMark\<close> of 64 KiB, so the stream delivers the
  bytes of the file in chunks of 64 KiB, the last one holding what is left.
\<close>

definition highWaterMark :: nat where
  "highWaterMark = 64 * 1024"

function createReadStream :: "buffer \<Rightarrow> buffer list" where
  "createReadStream bytes =
     (if bytes = [] then []
      else take highWaterMark bytes # createReadStream (drop highWaterMark bytes))"
  by pat_completeness auto
termination
  by (relation "measure length") (auto simp: highWaterMark_def)

declare createReadStream.simps [simp del]

section \<open>Runtimes and clients to run the class on\<close>

text \<open>
  \<open>path.join\<close> on a POSIX host, after Node's documentation: the non-empty arguments are
  joined with a slash and the result is normalised (empty and \<open>.\<close> segments dropped,
  \<open>..\<close> resolved, a trailing slash kept).
\<close>

fun splitOn :: "char \<Rightarrow> string \<Rightarrow> string list" where
  "splitOn sep [] = [[]]"
| "splitOn sep (c # cs) =
     (if c = sep then [] # splitOn sep cs
      else (case splitOn sep cs of [] \<Rightarrow> [[c]] | seg # segs \<Rightarrow> (c # seg) # segs))"

fun joinWith :: "string \<Rightarrow> string list \<Rightarrow> string" where
  "joinWith sep [] = []"
| "joinWith sep [seg] = seg"
| "joinWith sep (seg # segs) = seg @ sep @ joinWith sep segs"

fun normalizeSegments :: "bool \<Rightarrow> string list \<Rightarrow> string list \<Rightarrow> string list" where
  "normalizeSegments allowAboveRoot res [] = res"
| "normalizeSegments allowAboveRoot res (seg # segs) =
     (if seg = [] \<or> seg = ''.'' then normalizeSegments allowAboveRoot res segs
      else if seg = ''..'' then
        (if res \<noteq> [] \<and> last res \<noteq> ''..'' then normalizeSegments allowAboveRoot (butlast res) segs
         else if allowAboveRoot then normalizeSegments allowAboveRoot (res @ [''..'']) segs
         else normalizeSegments allowAboveRoot res segs)
      else normalizeSegments allowAboveRoot (res @ [seg]) segs)"

definition posixNormalize :: "string \<Rightarrow> string" where
  "posixNormalize p =
     (case p of
        [] \<Rightarrow> ''.''
      | c # cs \<Rightarrow>
          (let isAbsolute = (c = CHR ''/'');
               trailingSeparator = (last p = CHR ''/'');
               body = joinWith ''/'' (normalizeSegments (\<not> isAbsolute) [] (splitOn CHR ''/'' p))
           in if body = [] then (if isAbsolute then ''/'' else if trailingSeparator then ''./'' else ''.'')
              else (if isAbsolute then ''/'' else []) @ body @ (if trailingSeparator then ''/'' else [])))"

definition posixJoin :: "string \<Rightarrow> string \<Rightarrow> string" where
  "posixJoin a b =
     (let joined = (if a = [] then b else if b = [] then a else a @ ''/'' @ b)
      in if joined = [] then ''.'' else posixNormalize joined)"

text \<open>A client that accepts every command.\<close>

definition okResponse :: response where
  "okResponse = \<lparr>meta = Some \<lparr>httpStatusCode = Some 200\<rparr>,
                  UploadId = Some ''upload-1'', ETag = Some ''etag''\<rparr>"

definition okClient :: "unit s3client" where
  "okClient s cmd = (Inr okResponse, s)"

text \<open>A client that plays a script of outcomes, one per command, and accepts the rest.\<close>

fun scriptedClient :: "(jserror + response) list s3client" where
  "scriptedClient [] cmd = (Inr okResponse, [])"
| "scriptedClient (r # rs) cmd = (r, rs)"

text \<open>
  A bucket in memory, as S3 answers the commands that matter to existence: the state is
  the list of keys that hold an object.
\<close>

definition notFoundError :: jserror where
  "notFoundError = \<lparr>name = ''NotFound'', message = ''UnknownError''\<rparr>"

fun memoryS3 :: "string list s3client" where
  "memoryS3 keys (HeadObjectCommand b k) =
     (if k \<in> set keys then (Inr okResponse, keys) else (Inl notFoundError, keys))"
| "memoryS3 keys (DeleteObjectCommand b k) = (Inr okResponse, removeAll k keys)"
| "memoryS3 keys (PutObjectCommand b k body ct acc enc) = (Inr okResponse, k # keys)"
| "memoryS3 keys (CompleteMultipartUploadCommand b k u ps) = (Inr okResponse, k # keys)"
| "memoryS3 keys cmd = (Inr okResponse, keys)"

text \<open>A client that never rejects a command.\<close>

definition neverFails :: "'s s3client \<Rightarrow> bool" where
  "neverFails client = (\<forall>s cmd. \<exists>r. fst (client s cmd) = Inr r)"

text \<open>A POSIX host with the given files, and a host with no file at all.\<close>

definition enoent :: "string \<Rightarrow> jserror" where
  "enoent file = \<lparr>name = ''Error'',
                  message = ''ENOENT: no such file or directory, stat '' @ quoted file\<rparr>"

definition posixRuntime :: "(string \<Rightarrow> jserror + buffer list) \<Rightarrow> runtime" where
  "posixRuntime files = \<lparr>pathJoin = posixJoin, fs = files, STORE_DEBUG = None\<rparr>"

definition noFiles :: "string \<Rightarrow> jserror + buffer list" where
  "noFiles file = Inl (enoent file)"

definition oneFile :: "string \<Rightarrow> buffer list \<Rightarrow> string \<Rightarrow> jserror + buffer list" where
  "oneFile file chunks asked = (if asked = file then Inr chunks else Inl (enoent asked))"

text \<open>A store, a call and a failure to run the methods on.\<close>

definition demoStore :: "'s s3client \<Rightarrow> 's AwsS3Store" where
  "demoStore client = \<lparr>bucketName = Some ''satuin'', remoteDataPath = Some ''dev/wwebjs-auth'',
                       s3Client = Some client, debugEnabled = False\<rparr>"

definition demoOptions :: options where
  "demoOptions = \<lparr>session = Some ''work-phone'', path = None, remoteFilePath = None\<rparr>"

definition accessDenied :: jserror where
  "accessDenied = \<lparr>name = ''AccessDenied'', message = ''Access Denied''\<rparr>"

definition freshWorld :: "'s \<Rightarrow> 's world" where
  "freshWorld s = \<lparr>clientState = s, trace = []\<rparr>"

text \<open>
  Archives: one of three bytes, and one of 4.5 GiB as a read stream with chunks of 64 KiB
  delivers it (73728 chunks).
\<close>

definition smallFile :: "buffer list" where
  "smallFile = [[80, 75, 5]]"

definition bigFile :: "buffer list" where
  "bigFile = replicate 73728 (replicate 65536 0)"

text \<open>A stream of two chunks: one of exactly 20 MiB and one of three bytes.\<close>

definition fullAndRest :: "buffer list" where
  "fullAndRest = [replicate 20971520 0, [80, 75, 5]]"

text \<open>The bytes of an archive of 4.5 GiB.\<close>

definition bigArchive :: buffer where
  "bigArchive = replicate 4831838208 0"

section \<open>Construction\<close>

text \<open>
  C8. The constructor throws when the bucket name or the remote path is missing or empty,
  or the client is missing (also when it is called without an argument); it reads no file
  and sends no command, having no world to act on. With the three present it returns a
  store that holds them as given.
\<close>

theorem constructor_checks:
  "(falsy b \<or> falsy p \<or> c = None \<longrightarrow>
      isl (constructor rt (Some \<lparr>optBucketName = b, optRemoteDataPath = p, optS3Client = (c :: 's s3client option)\<rparr>)))
   \<and> isl (constructor rt (None :: 's storeOptions option))
   \<and> (\<not> falsy b \<and> \<not> falsy p \<and> c \<noteq> None \<longrightarrow>
      (\<exists>store. constructor rt (Some \<lparr>optBucketName = b, optRemoteDataPath = p, optS3Client = c\<rparr>) = Inr store
         \<and> bucketName store = b \<and> remoteDataPath store = p \<and> s3Client store = c))"
  by (auto simp: constructor_def emptyStoreOptions_def Let_def)

theorem constructor_checks_witness:
  "isl (constructor (posixRuntime noFiles)
          (Some \<lparr>optBucketName = Some [], optRemoteDataPath = Some ''dev/wwebjs-auth'', optS3Client = Some okClient\<rparr>))
   \<and> isl (constructor (posixRuntime noFiles)
          (Some \<lparr>optBucketName = Some ''satuin'', optRemoteDataPath = None, optS3Client = Some okClient\<rparr>))
   \<and> isl (constructor (posixRuntime noFiles)
          (Some \<lparr>optBucketName = Some ''satuin'', optRemoteDataPath = Some ''dev/wwebjs-auth'', optS3Client = (None :: unit s3client option)\<rparr>))
   \<and> (\<exists>store. constructor (posixRuntime noFiles)
          (Some \<lparr>optBucketName = Some ''satuin'', optRemoteDataPath = Some ''dev/wwebjs-auth'', optS3Client = Some okClient\<rparr>) = Inr store
        \<and> bucketName store = Some ''satuin'' \<and> remoteDataPath store = Some ''dev/wwebjs-auth''
        \<and> s3Client store = Some okClient)"
proof -
  have a: "isl (constructor (posixRuntime noFiles)
          (Some \<lparr>optBucketName = Some [], optRemoteDataPath = Some ''dev/wwebjs-auth'', optS3Client = Some okClient\<rparr>))"
    using constructor_checks [of "Some []" "Some ''dev/wwebjs-auth''" "Some okClient" "posixRuntime noFiles"]
    by simp
  have b: "isl (constructor (posixRuntime noFiles)
          (Some \<lparr>optBucketName = Some ''satuin'', optRemoteDataPath = None, optS3Client = Some okClient\<rparr>))"
    using constructor_checks [of "Some ''satuin''" "None" "Some okClient" "posixRuntime noFiles"]
    by simp
  have c: "isl (constructor (posixRuntime noFiles)
          (Some \<lparr>optBucketName = Some ''satuin'', optRemoteDataPath = Some ''dev/wwebjs-auth'', optS3Client = (None :: unit s3client option)\<rparr>))"
    using constructor_checks [of "Some ''satuin''" "Some ''dev/wwebjs-auth''" "None :: unit s3client option" "posixRuntime noFiles"]
    by simp
  have d: "\<exists>store. constructor (posixRuntime noFiles)
          (Some \<lparr>optBucketName = Some ''satuin'', optRemoteDataPath = Some ''dev/wwebjs-auth'', optS3Client = Some okClient\<rparr>) = Inr store
        \<and> bucketName store = Some ''satuin'' \<and> remoteDataPath store = Some ''dev/wwebjs-auth''
        \<and> s3Client store = Some okClient"
    using constructor_checks [of "Some ''satuin''" "Some ''dev/wwebjs-auth''" "Some okClient" "posixRuntime noFiles"]
    by simp
  from a b c d show ?thesis by blast
qed

section \<open>The remote key\<close>

lemma replaceBackslashes_free: "backslash \<notin> set (replaceBackslashes s)"
  by (auto simp: replaceBackslashes_def backslash_def)

lemma replaceBackslashes_nth:
  "i < length s \<Longrightarrow>
     replaceBackslashes s ! i = (if s ! i = CHR 0x5C then CHR ''/'' else s ! i)"
  by (simp add: replaceBackslashes_def backslash_def)

text \<open>
  C3. The key has the length of what \<open>path.join\<close> returns for the base path and the
  session identifier with \<open>.zip\<close> appended, and at every position it has a forward
  slash where the joined path has a backslash and the character of the joined path
  elsewhere; so no backslash is left in it, whatever \<open>path.join\<close> returns. The key a
  method computes (\<open>remoteKey\<close>) is this one, and it is the same for any two calls that
  agree on \<open>path.join\<close>, the base path and the session identifier: nothing else is
  read. On a POSIX host the base path \<open>prod/auth\<close> and the session \<open>work-phone\<close> give
  \<open>prod/auth/work-phone.zip\<close>.
\<close>

theorem deriveKey_spec:
  "length (deriveKey join base sessionId) = length (join base (sessionId @ ''.zip''))
   \<and> (\<forall>i < length (join base (sessionId @ ''.zip'')).
         deriveKey join base sessionId ! i
           = (if join base (sessionId @ ''.zip'') ! i = CHR 0x5C then CHR ''/''
              else join base (sessionId @ ''.zip'') ! i))
   \<and> CHR 0x5C \<notin> set (deriveKey join base sessionId)
   \<and> (remoteDataPath store = Some base \<and> session opts = Some sessionId \<longrightarrow>
        (\<exists>key. remoteKey rt store opts = Inr key
           \<and> length key = length (pathJoin rt base (sessionId @ ''.zip''))
           \<and> (\<forall>i < length key.
                 key ! i = (if pathJoin rt base (sessionId @ ''.zip'') ! i = CHR 0x5C then CHR ''/''
                            else pathJoin rt base (sessionId @ ''.zip'') ! i))
           \<and> CHR 0x5C \<notin> set key))
   \<and> (pathJoin rt' = pathJoin rt \<and> remoteDataPath store' = remoteDataPath store
        \<and> session opts' = session opts \<longrightarrow>
        remoteKey rt' store' opts' = remoteKey rt store opts)
   \<and> deriveKey posixJoin ''prod/auth'' ''work-phone'' = ''prod/auth/work-phone.zip''"
proof -
  have len: "length (deriveKey j b s) = length (j b (s @ ''.zip''))" for j b s
    by (simp add: deriveKey_def replaceBackslashes_def)
  have nth: "deriveKey j b s ! i
           = (if j b (s @ ''.zip'') ! i = CHR 0x5C then CHR ''/'' else j b (s @ ''.zip'') ! i)"
    if "i < length (j b (s @ ''.zip''))" for j b s i
    using that by (simp add: deriveKey_def replaceBackslashes_nth)
  have free: "CHR 0x5C \<notin> set (deriveKey j b s)" for j b s
    using replaceBackslashes_free [of "j b (s @ ''.zip'')"] by (simp add: deriveKey_def backslash_def)
  have computed: "\<exists>key. remoteKey rt store opts = Inr key
           \<and> length key = length (pathJoin rt base (sessionId @ ''.zip''))
           \<and> (\<forall>i < length key.
                 key ! i = (if pathJoin rt base (sessionId @ ''.zip'') ! i = CHR 0x5C then CHR ''/''
                            else pathJoin rt base (sessionId @ ''.zip'') ! i))
           \<and> CHR 0x5C \<notin> set key"
    if "remoteDataPath store = Some base" "session opts = Some sessionId"
  proof -
    have "remoteKey rt store opts = Inr (deriveKey (pathJoin rt) base sessionId)"
      using that by (simp add: remoteKey_def)
    then show ?thesis using len [of "pathJoin rt" base sessionId] nth [of _ "pathJoin rt" base sessionId]
        free [of "pathJoin rt" base sessionId] by simp
  qed
  have pure: "remoteKey rt' store' opts' = remoteKey rt store opts"
    if "pathJoin rt' = pathJoin rt" "remoteDataPath store' = remoteDataPath store"
      "session opts' = session opts"
    using that by (simp add: remoteKey_def split: option.splits)
  have posix: "deriveKey posixJoin ''prod/auth'' ''work-phone'' = ''prod/auth/work-phone.zip''"
    by (simp add: deriveKey_def posixJoin_def posixNormalize_def replaceBackslashes_def backslash_def)
  show ?thesis
    apply (intro conjI impI allI)
         apply (rule len)
        apply (erule nth)
       apply (rule free)
      apply (elim conjE, erule (1) computed)
     apply (elim conjE, erule (2) pure)
    apply (rule posix)
    done
qed

theorem deriveKey_spec_witness:
  "deriveKey (\<lambda>a b. a @ [CHR 0x5C] @ b) (''prod'' @ [CHR 0x5C] @ ''auth'') ''work-phone''
     = ''prod/auth/work-phone.zip''"
proof -
  let ?join = "\<lambda>a b :: string. a @ [CHR 0x5C] @ b"
  let ?base = "''prod'' @ [CHR 0x5C] @ ''auth''"
  let ?joined = "?join ?base (''work-phone'' @ ''.zip'')"
  note t = deriveKey_spec [of ?join ?base "''work-phone''"]
  have len: "length (deriveKey ?join ?base ''work-phone'') = length ?joined"
    by (rule t [THEN conjunct1])
  have nth: "\<forall>i < length ?joined. deriveKey ?join ?base ''work-phone'' ! i
               = (if ?joined ! i = CHR 0x5C then CHR ''/'' else ?joined ! i)"
    by (rule t [THEN conjunct2, THEN conjunct1])
  have "deriveKey ?join ?base ''work-phone''
          = map (\<lambda>c. if c = CHR 0x5C then CHR ''/'' else c) ?joined"
  proof (rule nth_equalityI)
    show "length (deriveKey ?join ?base ''work-phone'')
            = length (map (\<lambda>c. if c = CHR 0x5C then CHR ''/'' else c) ?joined)"
      using len by simp
    fix i
    assume "i < length (deriveKey ?join ?base ''work-phone'')"
    then have i: "i < length ?joined" using len by simp
    then show "deriveKey ?join ?base ''work-phone'' ! i
                 = map (\<lambda>c. if c = CHR 0x5C then CHR ''/'' else c) ?joined ! i"
      using nth by (simp only: nth_map)
  qed
  then show ?thesis by simp
qed

section \<open>Validation\<close>

lemma send_Some:
  "s3Client store = Some client \<Longrightarrow> client (clientState w) cmd = (r, s') \<Longrightarrow>
   send store cmd w = (r, \<lparr>clientState = s', trace = trace w @ [Sent cmd r]\<rparr>)"
  by (simp add: send_def)

text \<open>
  C4. \<open>isValidConfig\<close> answers false, logging one line and sending nothing, when the
  session, the bucket name, the remote path or the client is missing; the first one
  missing, in that order, decides the line. Otherwise it sends the list probe: an answer
  makes it true exactly when the answer carries the status 200, and a probe that throws
  makes it true as well, the error being logged and never thrown on (the method returns
  a boolean in every case).
\<close>

theorem isValidConfig_spec:
  "(falsy (session opts) \<longrightarrow>
      isValidConfig store opts w
        = (False, consoleLog ''Error: A valid session is required for AwsS3Store.'' w))
   \<and> (\<not> falsy (session opts) \<and> falsy (bucketName store) \<longrightarrow>
      isValidConfig store opts w
        = (False, consoleLog ''Error: A valid bucket name is required for AwsS3Store.'' w))
   \<and> (\<not> falsy (session opts) \<and> \<not> falsy (bucketName store) \<and> falsy (remoteDataPath store) \<longrightarrow>
      isValidConfig store opts w
        = (False, consoleLog ''Error: A valid remote dir path is required for AwsS3Store.'' w))
   \<and> (\<not> falsy (session opts) \<and> \<not> falsy (bucketName store) \<and> \<not> falsy (remoteDataPath store)
        \<and> s3Client store = None \<longrightarrow>
      isValidConfig store opts w
        = (False, consoleLog ''Error: A valid S3Client instance is required for AwsS3Store.'' w))
   \<and> (\<not> falsy (session opts) \<and> \<not> falsy (bucketName store) \<and> \<not> falsy (remoteDataPath store)
        \<and> s3Client store = Some client \<longrightarrow>
      (\<forall>result s'. client (clientState w) (ListObjectsCommand (bucketName store)) = (Inr result, s') \<longrightarrow>
         fst (isValidConfig store opts w)
           = (\<exists>m. meta result = Some m \<and> httpStatusCode m = Some 200))
      \<and> (\<forall>error s'. client (clientState w) (ListObjectsCommand (bucketName store)) = (Inl error, s') \<longrightarrow>
         fst (isValidConfig store opts w) = True
         \<and> trace (snd (isValidConfig store opts w))
             = trace w @ [Sent (ListObjectsCommand (bucketName store)) (Inl error),
                          ConsoleLogError ''Error: Invalid AwsS3Store configuration'' error]))"
  by (auto simp: isValidConfig_def send_Some probeOk_def consoleLogError_def split: option.splits)

theorem isValidConfig_spec_witness:
  "isValidConfig (demoStore scriptedClient) (demoOptions\<lparr>session := None\<rparr>) (freshWorld [])
     = (False, \<lparr>clientState = [], trace = [ConsoleLog ''Error: A valid session is required for AwsS3Store.'']\<rparr>)
   \<and> fst (isValidConfig (demoStore scriptedClient) demoOptions (freshWorld [])) = True
   \<and> fst (isValidConfig (demoStore scriptedClient) demoOptions (freshWorld [Inl accessDenied])) = True
   \<and> fst (isValidConfig (demoStore scriptedClient) demoOptions
            (freshWorld [Inr \<lparr>meta = Some \<lparr>httpStatusCode = Some 403\<rparr>, UploadId = None, ETag = None\<rparr>])) = False"
proof -
  have a: "isValidConfig (demoStore scriptedClient) (demoOptions\<lparr>session := None\<rparr>) (freshWorld [])
     = (False, \<lparr>clientState = [], trace = [ConsoleLog ''Error: A valid session is required for AwsS3Store.'']\<rparr>)"
    using isValidConfig_spec [of "demoOptions\<lparr>session := None\<rparr>" "demoStore scriptedClient" "freshWorld []" scriptedClient]
    by (simp add: demoOptions_def freshWorld_def consoleLog_def)
  have b: "fst (isValidConfig (demoStore scriptedClient) demoOptions (freshWorld [])) = True"
    using isValidConfig_spec [of demoOptions "demoStore scriptedClient" "freshWorld []" scriptedClient]
    by (simp add: demoOptions_def demoStore_def freshWorld_def okResponse_def)
  have c: "fst (isValidConfig (demoStore scriptedClient) demoOptions (freshWorld [Inl accessDenied])) = True"
    using isValidConfig_spec [of demoOptions "demoStore scriptedClient" "freshWorld [Inl accessDenied]" scriptedClient]
    by (simp add: demoOptions_def demoStore_def freshWorld_def)
  have d: "fst (isValidConfig (demoStore scriptedClient) demoOptions
            (freshWorld [Inr \<lparr>meta = Some \<lparr>httpStatusCode = Some 403\<rparr>, UploadId = None, ETag = None\<rparr>])) = False"
    using isValidConfig_spec [of demoOptions "demoStore scriptedClient"
        "freshWorld [Inr \<lparr>meta = Some \<lparr>httpStatusCode = Some 403\<rparr>, UploadId = None, ETag = None\<rparr>]" scriptedClient]
    by (simp add: demoOptions_def demoStore_def freshWorld_def)
  from a b c d show ?thesis by blast
qed

section \<open>Existence\<close>

lemma isValidConfig_True:
  "fst (isValidConfig store opts w) \<Longrightarrow>
     \<not> falsy (session opts) \<and> \<not> falsy (bucketName store) \<and> \<not> falsy (remoteDataPath store)
     \<and> s3Client store \<noteq> None"
  by (auto simp: isValidConfig_def split: if_splits)

lemma remoteKey_valid:
  "\<not> falsy (remoteDataPath store) \<Longrightarrow> \<exists>key. remoteKey rt store opts = Inr key"
  by (cases "remoteDataPath store") (auto simp: remoteKey_def)

lemma send_clientState:
  "s3Client store = Some client \<Longrightarrow>
     send store cmd w = (fst (client (clientState w) cmd),
        \<lparr>clientState = snd (client (clientState w) cmd),
         trace = trace w @ [Sent cmd (fst (client (clientState w) cmd))]\<rparr>)"
  by (simp add: send_def split: prod.splits)

lemma isValidConfig_debugLog_fst:
  "fst (isValidConfig store opts (debugLog store msg w)) = fst (isValidConfig store opts w)"
  by (auto simp: isValidConfig_def debugLog_def send_def split: option.splits prod.splits sum.splits)

lemma isValidConfig_debugLog_state:
  "clientState (snd (isValidConfig store opts (debugLog store msg w)))
     = clientState (snd (isValidConfig store opts w))"
  by (auto simp: isValidConfig_def debugLog_def send_def consoleLog_def consoleLogError_def
           split: option.splits prod.splits sum.splits)

text \<open>
  C5. \<open>sessionExists\<close> never throws. When validation fails it resolves to undefined
  without probing. Otherwise it sends one head probe for the derived key, in the client
  state validation left: it resolves to true when the probe succeeds, to false when the
  probe fails with an error named \<open>NoSuchKey\<close> or \<open>NotFound\<close>, and to undefined
  when the probe fails with any other error.
\<close>

theorem sessionExists_spec:
  "\<not> isl (fst (sessionExists rt store opts w))
   \<and> (\<not> fst (isValidConfig store opts w) \<longrightarrow> fst (sessionExists rt store opts w) = Inr None)
   \<and> (fst (isValidConfig store opts w) \<and> s3Client store = Some client
        \<and> remoteKey rt store opts = Inr key
        \<and> client (clientState (snd (isValidConfig store opts w)))
             (HeadObjectCommand (bucketName store) key) = (outcome, s') \<longrightarrow>
      fst (sessionExists rt store opts w)
        = (case outcome of
             Inr found \<Rightarrow> Inr (Some True)
           | Inl err \<Rightarrow> if name err = ''NoSuchKey'' \<or> name err = ''NotFound''
                        then Inr (Some False) else Inr None))"
proof -
  let ?w1 = "debugLog store ''[METHOD: sessionExists] Triggered.'' w"
  obtain valid w2 where v: "isValidConfig store opts ?w1 = (valid, w2)"
    by (cases "isValidConfig store opts ?w1")
  have valid: "valid = fst (isValidConfig store opts w)"
    using v isValidConfig_debugLog_fst [of store opts _ w] by (metis fst_conv)
  have st: "clientState w2 = clientState (snd (isValidConfig store opts w))"
    using v isValidConfig_debugLog_state [of store opts _ w] by (metis snd_conv)
  show ?thesis
  proof (cases valid)
    case False
    then show ?thesis using v valid by (simp add: sessionExists_def)
  next
    case True
    then have ok: "\<not> falsy (remoteDataPath store)" "s3Client store \<noteq> None"
      using valid isValidConfig_True [of store opts w] by auto
    then obtain k c where k: "remoteKey rt store opts = Inr k" and c: "s3Client store = Some c"
      using remoteKey_valid [of store rt opts] by auto
    show ?thesis using v True valid k c st
      by (auto simp: sessionExists_def send_clientState notFound_def split: sum.splits prod.splits)
  qed
qed

lemmas demo_simps = demoStore_def demoOptions_def freshWorld_def isValidConfig_def send_def
  okResponse_def probeOk_def remoteKey_def deriveKey_def posixRuntime_def posixJoin_def
  posixNormalize_def replaceBackslashes_def backslash_def consoleLogError_def
  notFoundError_def accessDenied_def

theorem sessionExists_spec_witness:
  "fst (sessionExists (posixRuntime noFiles) (demoStore scriptedClient) demoOptions (freshWorld []))
     = Inr (Some True)
   \<and> fst (sessionExists (posixRuntime noFiles) (demoStore scriptedClient) demoOptions
            (freshWorld [Inr okResponse, Inl notFoundError])) = Inr (Some False)
   \<and> fst (sessionExists (posixRuntime noFiles) (demoStore scriptedClient) demoOptions
            (freshWorld [Inr okResponse, Inl accessDenied])) = Inr None"
proof -
  have a: "fst (sessionExists (posixRuntime noFiles) (demoStore scriptedClient) demoOptions (freshWorld []))
     = Inr (Some True)"
    using sessionExists_spec [of "posixRuntime noFiles" "demoStore scriptedClient" demoOptions
        "freshWorld []" scriptedClient "''dev/wwebjs-auth/work-phone.zip''" "Inr okResponse" "[]"]
    by (simp add: demo_simps)
  have b: "fst (sessionExists (posixRuntime noFiles) (demoStore scriptedClient) demoOptions
            (freshWorld [Inr okResponse, Inl notFoundError])) = Inr (Some False)"
    using sessionExists_spec [of "posixRuntime noFiles" "demoStore scriptedClient" demoOptions
        "freshWorld [Inr okResponse, Inl notFoundError]" scriptedClient
        "''dev/wwebjs-auth/work-phone.zip''" "Inl notFoundError" "[]"]
    by (simp add: demo_simps)
  have c: "fst (sessionExists (posixRuntime noFiles) (demoStore scriptedClient) demoOptions
            (freshWorld [Inr okResponse, Inl accessDenied])) = Inr None"
    using sessionExists_spec [of "posixRuntime noFiles" "demoStore scriptedClient" demoOptions
        "freshWorld [Inr okResponse, Inl accessDenied]" scriptedClient
        "''dev/wwebjs-auth/work-phone.zip''" "Inl accessDenied" "[]"]
    by (simp add: demo_simps)
  from a b c show ?thesis by blast
qed

section \<open>Deletion\<close>

lemma sends_append [simp]: "sends (xs @ ys) = sends xs @ sends ys"
  by (induction xs rule: sends.induct) auto

lemma sentCommands_append [simp]: "sentCommands (xs @ ys) = sentCommands xs @ sentCommands ys"
  by (simp add: sentCommands_def)

lemma debugLog_sends [simp]: "sends (trace (debugLog store msg w)) = sends (trace w)"
  by (simp add: debugLog_def)

lemma debugLog_state [simp]: "clientState (debugLog store msg w) = clientState w"
  by (simp add: debugLog_def)

lemma consoleLog_sends [simp]: "sends (trace (consoleLog msg w)) = sends (trace w)"
  by (simp add: consoleLog_def)

lemma consoleLog_state [simp]: "clientState (consoleLog msg w) = clientState w"
  by (simp add: consoleLog_def)

lemma consoleLogError_sends [simp]: "sends (trace (consoleLogError msg e w)) = sends (trace w)"
  by (simp add: consoleLogError_def)

lemma consoleLogError_state [simp]: "clientState (consoleLogError msg e w) = clientState w"
  by (simp add: consoleLogError_def)

text \<open>The world \<open>isValidConfig\<close> leaves.\<close>

lemma isValidConfig_invalid_world:
  "\<not> fst (isValidConfig store opts w) \<Longrightarrow>
     filter isDelete (map fst (sends (trace (snd (isValidConfig store opts w)))))
       = filter isDelete (map fst (sends (trace w)))"
  by (auto simp: isValidConfig_def send_def split: if_splits option.splits prod.splits sum.splits)

lemma isValidConfig_valid_sends:
  "fst (isValidConfig store opts w) \<Longrightarrow> s3Client store = Some client \<Longrightarrow>
     sends (trace (snd (isValidConfig store opts w)))
       = sends (trace w) @ [(ListObjectsCommand (bucketName store),
                             fst (client (clientState w) (ListObjectsCommand (bucketName store))))]"
  by (auto simp: isValidConfig_def send_def split: if_splits option.splits prod.splits sum.splits)

lemma isValidConfig_valid_state:
  "fst (isValidConfig store opts w) \<Longrightarrow> s3Client store = Some client \<Longrightarrow>
     clientState (snd (isValidConfig store opts w))
       = snd (client (clientState w) (ListObjectsCommand (bucketName store)))"
  by (auto simp: isValidConfig_def send_def split: if_splits option.splits prod.splits sum.splits)

lemma isValidConfig_debugLog_sends:
  "sends (trace (snd (isValidConfig store opts (debugLog store msg w))))
     = sends (trace (snd (isValidConfig store opts w)))"
  by (auto simp: isValidConfig_def send_def debugLog_def consoleLog_def consoleLogError_def
      split: if_splits option.splits prod.splits sum.splits)


lemma delete_after_valid_failed:
  assumes "isValidConfig store opts (debugLog store ''[METHOD: delete] Triggered.'' w) = (True, w2)"
    and "remoteKey rt store opts = Inr key" and "s3Client store = Some client"
    and "client (clientState w2) (HeadObjectCommand (bucketName store) key) = (Inl err, s')"
  shows "sends (trace (snd (delete rt store opts w)))
           = sends (trace w2) @ [(HeadObjectCommand (bucketName store) key, Inl err)]"
    and "clientState (snd (delete rt store opts w)) = s'"
  using assms by (simp_all add: delete_def deleteCatch_def send_def)

lemma delete_after_valid_found:
  assumes "isValidConfig store opts (debugLog store ''[METHOD: delete] Triggered.'' w) = (True, w2)"
    and "remoteKey rt store opts = Inr key" and "s3Client store = Some client"
    and "client (clientState w2) (HeadObjectCommand (bucketName store) key) = (Inr found, s')"
  shows "sends (trace (snd (delete rt store opts w)))
           = sends (trace w2) @ [(HeadObjectCommand (bucketName store) key, Inr found),
               (DeleteObjectCommand (bucketName store) key,
                fst (client s' (DeleteObjectCommand (bucketName store) key)))]"
    and "clientState (snd (delete rt store opts w))
           = snd (client s' (DeleteObjectCommand (bucketName store) key))"
  using assms
  by (simp_all add: delete_def deleteCatch_def send_def split: prod.splits sum.splits)

lemma delete_never_throws: "fst (delete rt store opts w) = Inr ()"
proof -
  let ?w1 = "debugLog store ''[METHOD: delete] Triggered.'' w"
  obtain valid w2 where v: "isValidConfig store opts ?w1 = (valid, w2)"
    by (cases "isValidConfig store opts ?w1")
  show ?thesis
  proof (cases valid)
    case False
    then show ?thesis using v by (simp add: delete_def)
  next
    case True
    then have "\<not> falsy (remoteDataPath store)"
      using v isValidConfig_True [of store opts ?w1] by simp
    then obtain k where k: "remoteKey rt store opts = Inr k"
      using remoteKey_valid [of store rt opts] by auto
    show ?thesis using v True k
      by (auto simp: delete_def deleteCatch_def split: sum.splits prod.splits)
  qed
qed

lemma delete_invalid:
  assumes "\<not> fst (isValidConfig store opts w)"
  shows "filter isDelete (sentCommands (trace (snd (delete rt store opts w))))
           = filter isDelete (sentCommands (trace w))"
proof -
  let ?w1 = "debugLog store ''[METHOD: delete] Triggered.'' w"
  have inv: "\<not> fst (isValidConfig store opts ?w1)"
    using assms by (simp add: isValidConfig_debugLog_fst)
  then have "snd (delete rt store opts w) = snd (isValidConfig store opts ?w1)"
    by (cases "isValidConfig store opts ?w1") (simp add: delete_def)
  then show ?thesis
    using isValidConfig_invalid_world [OF inv] by (simp add: sentCommands_def)
qed

lemma delete_valid:
  assumes valid: "fst (isValidConfig store opts w)" and c: "s3Client store = Some client"
    and k: "remoteKey rt store opts = Inr key"
    and list: "client (clientState w) (ListObjectsCommand (bucketName store)) = (probe, s1)"
    and head: "client s1 (HeadObjectCommand (bucketName store) key) = (outcome, s2)"
  shows "sends (trace (snd (delete rt store opts w)))
           = sends (trace w) @ (ListObjectsCommand (bucketName store), probe)
               # (HeadObjectCommand (bucketName store) key, outcome)
               # (case outcome of
                    Inl err \<Rightarrow> []
                  | Inr found \<Rightarrow> [(DeleteObjectCommand (bucketName store) key,
                                   fst (client s2 (DeleteObjectCommand (bucketName store) key)))])"
    and "clientState (snd (delete rt store opts w))
           = (case outcome of
                Inl err \<Rightarrow> s2
              | Inr found \<Rightarrow> snd (client s2 (DeleteObjectCommand (bucketName store) key)))"
proof -
  let ?w1 = "debugLog store ''[METHOD: delete] Triggered.'' w"
  obtain v w2 where v: "isValidConfig store opts ?w1 = (v, w2)"
    by (cases "isValidConfig store opts ?w1")
  have vt: "v = True"
    using v valid isValidConfig_debugLog_fst [of store opts _ w] by (metis fst_conv)
  have tr: "sends (trace w2) = sends (trace w) @ [(ListObjectsCommand (bucketName store), probe)]"
    using v isValidConfig_debugLog_sends [of store opts "''[METHOD: delete] Triggered.''" w]
      isValidConfig_valid_sends [OF valid c] list by simp
  have st: "clientState w2 = s1"
    using v isValidConfig_debugLog_state [of store opts "''[METHOD: delete] Triggered.''" w]
      isValidConfig_valid_state [OF valid c] list by simp
  show "sends (trace (snd (delete rt store opts w)))
           = sends (trace w) @ (ListObjectsCommand (bucketName store), probe)
               # (HeadObjectCommand (bucketName store) key, outcome)
               # (case outcome of
                    Inl err \<Rightarrow> []
                  | Inr found \<Rightarrow> [(DeleteObjectCommand (bucketName store) key,
                                   fst (client s2 (DeleteObjectCommand (bucketName store) key)))])"
  proof (cases outcome)
    case (Inl err)
    then show ?thesis
      using delete_after_valid_failed(1) [OF v [unfolded vt] k c, of err s2] head st tr by simp
  next
    case (Inr found)
    then show ?thesis
      using delete_after_valid_found(1) [OF v [unfolded vt] k c, of found s2] head st tr by simp
  qed
  show "clientState (snd (delete rt store opts w))
           = (case outcome of
                Inl err \<Rightarrow> s2
              | Inr found \<Rightarrow> snd (client s2 (DeleteObjectCommand (bucketName store) key)))"
  proof (cases outcome)
    case (Inl err)
    then show ?thesis
      using delete_after_valid_failed(2) [OF v [unfolded vt] k c, of err s2] head st by simp
  next
    case (Inr found)
    then show ?thesis
      using delete_after_valid_found(2) [OF v [unfolded vt] k c, of found s2] head st by simp
  qed
qed


text \<open>On the bucket in memory.\<close>

lemma memoryS3_valid:
  "s3Client store = Some memoryS3 \<Longrightarrow>
     fst (isValidConfig store opts w) = fst (isValidConfig store opts w0)"
  by (simp add: isValidConfig_def send_def okResponse_def probeOk_def)

lemma delete_memory_absent:
  assumes c: "s3Client store = Some memoryS3" and valid: "fst (isValidConfig store opts w)"
    and k: "remoteKey rt store opts = Inr key" and absent: "key \<notin> set (clientState w)"
  shows "sends (trace (snd (delete rt store opts w)))
           = sends (trace w) @ [(ListObjectsCommand (bucketName store), Inr okResponse),
                                (HeadObjectCommand (bucketName store) key, Inl notFoundError)]
         \<and> clientState (snd (delete rt store opts w)) = clientState w"
  using delete_valid [OF valid c k, of "Inr okResponse" "clientState w" "Inl notFoundError" "clientState w"]
    absent by simp

lemma delete_memory_removes:
  assumes c: "s3Client store = Some memoryS3" and valid: "fst (isValidConfig store opts w)"
    and k: "remoteKey rt store opts = Inr key"
  shows "key \<notin> set (clientState (snd (delete rt store opts w)))"
proof (cases "key \<in> set (clientState w)")
  case True
  then show ?thesis
    using delete_valid(2) [OF valid c k, of "Inr okResponse" "clientState w" "Inr okResponse" "clientState w"]
    by simp
next
  case False
  then show ?thesis using delete_memory_absent [OF c valid k] by simp
qed

text \<open>
  C6. \<open>delete\<close> never throws. When validation fails it sends no delete. Otherwise it
  sends the head probe for the derived key and, only when that probe succeeded, the
  delete command: a probe that fails, with not-found or anything else, ends the call with
  nothing more sent, and the outcome of the delete command, error or not, is not thrown
  on. On a bucket that forgets a deleted key (\<open>memoryS3\<close>), after one \<open>delete\<close> the
  key is gone, and a second \<open>delete\<close> returns normally, sends the list probe and a head
  probe answered not-found, sends no delete and leaves the bucket as it was: what
  \<open>delete\<close> does in any world whose bucket lacks the key.
\<close>

theorem delete_spec:
  "fst (delete rt store opts w) = Inr ()
   \<and> (\<not> fst (isValidConfig store opts w) \<longrightarrow>
        filter isDelete (sentCommands (trace (snd (delete rt store opts w))))
          = filter isDelete (sentCommands (trace w)))
   \<and> (fst (isValidConfig store opts w) \<and> s3Client store = Some client
        \<and> remoteKey rt store opts = Inr key
        \<and> client (clientState w) (ListObjectsCommand (bucketName store)) = (probe, s1)
        \<and> client s1 (HeadObjectCommand (bucketName store) key) = (outcome, s2) \<longrightarrow>
        sends (trace (snd (delete rt store opts w)))
          = sends (trace w) @ (ListObjectsCommand (bucketName store), probe)
              # (HeadObjectCommand (bucketName store) key, outcome)
              # (case outcome of
                   Inl err \<Rightarrow> []
                 | Inr found \<Rightarrow> [(DeleteObjectCommand (bucketName store) key,
                                  fst (client s2 (DeleteObjectCommand (bucketName store) key)))]))
   \<and> (fst (isValidConfig store opts m) \<and> s3Client store = Some memoryS3
        \<and> remoteKey rt store opts = Inr key \<longrightarrow>
        key \<notin> set (clientState (snd (delete rt store opts m)))
        \<and> fst (delete rt store opts (snd (delete rt store opts m))) = Inr ()
        \<and> sends (trace (snd (delete rt store opts (snd (delete rt store opts m)))))
            = sends (trace (snd (delete rt store opts m)))
                @ [(ListObjectsCommand (bucketName store), Inr okResponse),
                   (HeadObjectCommand (bucketName store) key, Inl notFoundError)]
        \<and> clientState (snd (delete rt store opts (snd (delete rt store opts m))))
            = clientState (snd (delete rt store opts m))
        \<and> (\<forall>m0. key \<notin> set (clientState m0) \<longrightarrow>
              sends (trace (snd (delete rt store opts m0)))
                = sends (trace m0)
                    @ [(ListObjectsCommand (bucketName store), Inr okResponse),
                       (HeadObjectCommand (bucketName store) key, Inl notFoundError)]
              \<and> clientState (snd (delete rt store opts m0)) = clientState m0))"
proof -
  have a: "fst (delete rt store opts w) = Inr ()" by (rule delete_never_throws)
  have b: "\<not> fst (isValidConfig store opts w) \<longrightarrow>
        filter isDelete (sentCommands (trace (snd (delete rt store opts w))))
          = filter isDelete (sentCommands (trace w))"
    by (intro impI) (rule delete_invalid)
  have c: "fst (isValidConfig store opts w) \<and> s3Client store = Some client
        \<and> remoteKey rt store opts = Inr key
        \<and> client (clientState w) (ListObjectsCommand (bucketName store)) = (probe, s1)
        \<and> client s1 (HeadObjectCommand (bucketName store) key) = (outcome, s2) \<longrightarrow>
        sends (trace (snd (delete rt store opts w)))
          = sends (trace w) @ (ListObjectsCommand (bucketName store), probe)
              # (HeadObjectCommand (bucketName store) key, outcome)
              # (case outcome of
                   Inl err \<Rightarrow> []
                 | Inr found \<Rightarrow> [(DeleteObjectCommand (bucketName store) key,
                                  fst (client s2 (DeleteObjectCommand (bucketName store) key)))])"
    by (intro impI, elim conjE) (rule delete_valid(1))
  have d: "fst (isValidConfig store opts m) \<and> s3Client store = Some memoryS3
        \<and> remoteKey rt store opts = Inr key \<longrightarrow>
        key \<notin> set (clientState (snd (delete rt store opts m)))
        \<and> fst (delete rt store opts (snd (delete rt store opts m))) = Inr ()
        \<and> sends (trace (snd (delete rt store opts (snd (delete rt store opts m)))))
            = sends (trace (snd (delete rt store opts m)))
                @ [(ListObjectsCommand (bucketName store), Inr okResponse),
                   (HeadObjectCommand (bucketName store) key, Inl notFoundError)]
        \<and> clientState (snd (delete rt store opts (snd (delete rt store opts m))))
            = clientState (snd (delete rt store opts m))
        \<and> (\<forall>m0. key \<notin> set (clientState m0) \<longrightarrow>
              sends (trace (snd (delete rt store opts m0)))
                = sends (trace m0)
                    @ [(ListObjectsCommand (bucketName store), Inr okResponse),
                       (HeadObjectCommand (bucketName store) key, Inl notFoundError)]
              \<and> clientState (snd (delete rt store opts m0)) = clientState m0)"
  proof (intro impI, elim conjE)
    assume valid: "fst (isValidConfig store opts m)" and cl: "s3Client store = Some memoryS3"
      and k: "remoteKey rt store opts = Inr key"
    have anyvalid: "fst (isValidConfig store opts m0)" for m0
      using valid memoryS3_valid [OF cl, of opts m0 m] by simp
    have gone: "key \<notin> set (clientState (snd (delete rt store opts m)))"
      by (rule delete_memory_removes [OF cl valid k])
    have absent: "sends (trace (snd (delete rt store opts m0)))
                = sends (trace m0)
                    @ [(ListObjectsCommand (bucketName store), Inr okResponse),
                       (HeadObjectCommand (bucketName store) key, Inl notFoundError)]
              \<and> clientState (snd (delete rt store opts m0)) = clientState m0"
      if "key \<notin> set (clientState m0)" for m0
      using delete_memory_absent [OF cl anyvalid k that] .
    have second: "fst (delete rt store opts (snd (delete rt store opts m))) = Inr ()"
      by (rule delete_never_throws)
    have all: "\<forall>m0. key \<notin> set (clientState m0) \<longrightarrow>
              sends (trace (snd (delete rt store opts m0)))
                = sends (trace m0)
                    @ [(ListObjectsCommand (bucketName store), Inr okResponse),
                       (HeadObjectCommand (bucketName store) key, Inl notFoundError)]
              \<and> clientState (snd (delete rt store opts m0)) = clientState m0"
      using absent by (intro allI impI)
    show "key \<notin> set (clientState (snd (delete rt store opts m)))
        \<and> fst (delete rt store opts (snd (delete rt store opts m))) = Inr ()
        \<and> sends (trace (snd (delete rt store opts (snd (delete rt store opts m)))))
            = sends (trace (snd (delete rt store opts m)))
                @ [(ListObjectsCommand (bucketName store), Inr okResponse),
                   (HeadObjectCommand (bucketName store) key, Inl notFoundError)]
        \<and> clientState (snd (delete rt store opts (snd (delete rt store opts m))))
            = clientState (snd (delete rt store opts m))
        \<and> (\<forall>m0. key \<notin> set (clientState m0) \<longrightarrow>
              sends (trace (snd (delete rt store opts m0)))
                = sends (trace m0)
                    @ [(ListObjectsCommand (bucketName store), Inr okResponse),
                       (HeadObjectCommand (bucketName store) key, Inl notFoundError)]
              \<and> clientState (snd (delete rt store opts m0)) = clientState m0)"
      by (rule conjI [OF gone conjI [OF second conjI [OF conjunct1 [OF absent [OF gone]]
            conjI [OF conjunct2 [OF absent [OF gone]] all]]]])
  qed
  show ?thesis by (rule conjI [OF a conjI [OF b conjI [OF c d]]])
qed

theorem delete_spec_witness:
  "fst (delete (posixRuntime noFiles) (demoStore memoryS3) demoOptions
          (freshWorld [''dev/wwebjs-auth/work-phone.zip''])) = Inr ()
   \<and> sentCommands (trace (snd (delete (posixRuntime noFiles) (demoStore memoryS3) demoOptions
          (freshWorld [''dev/wwebjs-auth/work-phone.zip'']))))
       = [ListObjectsCommand (Some ''satuin''),
          HeadObjectCommand (Some ''satuin'') ''dev/wwebjs-auth/work-phone.zip'',
          DeleteObjectCommand (Some ''satuin'') ''dev/wwebjs-auth/work-phone.zip'']
   \<and> sends (trace (snd (delete (posixRuntime noFiles) (demoStore memoryS3) demoOptions
          (snd (delete (posixRuntime noFiles) (demoStore memoryS3) demoOptions
             (freshWorld [''dev/wwebjs-auth/work-phone.zip'']))))))
       = sends (trace (snd (delete (posixRuntime noFiles) (demoStore memoryS3) demoOptions
             (freshWorld [''dev/wwebjs-auth/work-phone.zip'']))))
         @ [(ListObjectsCommand (Some ''satuin''), Inr okResponse),
            (HeadObjectCommand (Some ''satuin'') ''dev/wwebjs-auth/work-phone.zip'', Inl notFoundError)]"
  using delete_spec [of "posixRuntime noFiles" "demoStore memoryS3" demoOptions
      "freshWorld [''dev/wwebjs-auth/work-phone.zip'']" memoryS3 "''dev/wwebjs-auth/work-phone.zip''"
      "Inr okResponse" "[''dev/wwebjs-auth/work-phone.zip'']" "Inr okResponse"
      "[''dev/wwebjs-auth/work-phone.zip'']" "freshWorld [''dev/wwebjs-auth/work-phone.zip'']"]
  by (simp add: demo_simps sentCommands_def)

section \<open>The stream loop: its buffer\<close>

lemma partSize_pos: "0 < partSize"
  by (simp add: partSize_def)

lemma loopParts_at_least:
  "b \<in> set (loopParts buf chunks) \<Longrightarrow> partSize \<le> length b"
  by (induction buf chunks rule: loopParts.induct) (auto split: if_splits)

lemma loopParts_less:
  "length (concat buf) < partSize \<Longrightarrow> \<forall>c \<in> set chunks. length c \<le> m \<Longrightarrow>
     b \<in> set (loopParts buf chunks) \<Longrightarrow> length b < partSize + m"
proof (induction buf chunks rule: loopParts.induct)
  case (1 buffer)
  then show ?case by simp
next
  case (2 buffer chunk rest)
  show ?case
  proof (cases "partSize \<le> length (concat (buffer @ [chunk]))")
    case True
    with 2 partSize_pos show ?thesis by (auto split: if_splits)
  next
    case False
    with 2 show ?thesis by (auto split: if_splits)
  qed
qed

lemma loopRest_less:
  "length (concat buf) < partSize \<Longrightarrow> length (concat (loopRest buf chunks)) < partSize"
  using partSize_pos
  by (induction buf chunks rule: loopRest.induct) (auto split: if_splits)

lemma loop_bytes:
  "concat (loopParts buf chunks) @ concat (loopRest buf chunks) = concat buf @ concat chunks"
  by (induction buf chunks rule: loopParts.induct) auto

lemma loop_some_part:
  "chunks \<noteq> [] \<Longrightarrow> loopParts buf chunks \<noteq> [] \<or> loopRest buf chunks \<noteq> []"
proof (induction buf chunks rule: loopParts.induct)
  case (1 buffer)
  then show ?case by simp
next
  case (2 buffer chunk rest)
  show ?case
  proof (cases rest)
    case Nil
    then show ?thesis by simp
  next
    case (Cons c cs)
    with 2 show ?thesis by (auto split: if_splits)
  qed
qed


lemma dvd_step:
  fixes b c T :: nat
  assumes "c dvd T" "c dvd b" "b < T" "0 < c"
  shows "b + c \<le> T"
proof -
  obtain i where i: "b = c * i" using assms(2) by (auto elim: dvdE)
  obtain k where k: "T = c * k" using assms(1) by (auto elim: dvdE)
  have "i < k" using assms(3,4) i k by simp
  then have "Suc i \<le> k" by simp
  then have "c * Suc i \<le> c * k" by (rule mult_le_mono2)
  then show ?thesis using i k by simp
qed

lemma ceil_one:
  fixes n T :: nat
  assumes "0 < n" "n \<le> T"
  shows "(n + T - 1) div T = 1"
proof -
  have e: "n + T - 1 = (n - 1) + T" using assms by arith
  have z: "(n - 1) div T = 0" using assms by simp
  have "((n - 1) + T) div T = (n - 1) div T + 1"
    using assms div_add_self2 [of T "n - 1"] by simp
  then show ?thesis using e z by simp
qed

lemma ceil_step:
  fixes n T :: nat
  assumes "0 < T" "0 < n"
  shows "(T + n + T - 1) div T = 1 + (n + T - 1) div T"
proof -
  have e: "T + n + T - 1 = (n + T - 1) + T" using assms by arith
  have "((n + T - 1) + T) div T = (n + T - 1) div T + 1"
    using assms div_add_self2 [of T "n + T - 1"] by simp
  then show ?thesis by (simp only: e)
qed


text \<open>With chunks of a size that divides the part size, the parts are those of the ceiling.\<close>

lemma loop_count:
  "chunkedBy c chunks \<Longrightarrow> chunks \<noteq> [] \<Longrightarrow> 0 < c \<Longrightarrow> c dvd partSize \<Longrightarrow>
     c dvd length (concat buf) \<Longrightarrow> length (concat buf) < partSize \<Longrightarrow>
     length (loopParts buf chunks) + (if loopRest buf chunks = [] then 0 else 1)
       = (length (concat buf) + length (concat chunks) + partSize - 1) div partSize"
proof (induction c chunks arbitrary: buf rule: chunkedBy.induct)
  case (1 c)
  then show ?case by simp
next
  case (2 c chunk)
  have le: "length (concat buf) + length chunk \<le> partSize"
    using dvd_step [OF "2.prems"(4) "2.prems"(5) "2.prems"(6) "2.prems"(3)] "2.prems"(1) by simp
  show ?case
  proof (cases "partSize \<le> length (concat buf) + length chunk")
    case True
    then have "length (concat buf) + length chunk = partSize" using le by simp
    then show ?thesis using ceil_one [of partSize partSize] partSize_pos by simp
  next
    case False
    then show ?thesis
      using ceil_one [of "length (concat buf) + length chunk" partSize] "2.prems"(1) by simp
  qed
next
  case (3 c chunk v va)
  have len: "length chunk = c" using "3.prems"(1) by simp
  have le: "length (concat buf) + length chunk \<le> partSize"
    using dvd_step [OF "3.prems"(4) "3.prems"(5) "3.prems"(6) "3.prems"(3)] len by simp
  have rest: "chunkedBy c (v # va)" "v # va \<noteq> []" using "3.prems"(1) by simp_all
  have pos: "0 < length (concat (v # va))"
    using rest(1) "3.prems"(3) by (cases va) auto
  show ?case
  proof (cases "partSize \<le> length (concat buf) + length chunk")
    case True
    then have eq: "length (concat buf) + length chunk = partSize" using le by simp
    have ih: "length (loopParts [] (v # va)) + (if loopRest [] (v # va) = [] then 0 else 1)
       = (length (concat ([] :: buffer list)) + length (concat (v # va)) + partSize - 1) div partSize"
      using "3.IH" [OF rest "3.prems"(3) "3.prems"(4), of "[]"] partSize_pos by simp
    have "(length (concat buf) + length (concat (chunk # v # va)) + partSize - 1) div partSize
            = (partSize + length (concat (v # va)) + partSize - 1) div partSize"
      using eq by (simp add: add.assoc [symmetric])
    also have "\<dots> = 1 + (length (concat (v # va)) + partSize - 1) div partSize"
      using ceil_step [OF partSize_pos pos] .
    finally show ?thesis using ih True by simp
  next
    case False
    then have lt: "length (concat (buf @ [chunk])) < partSize" by simp
    have dv: "c dvd length (concat (buf @ [chunk]))" using "3.prems"(5) len by simp
    have ih: "length (loopParts (buf @ [chunk]) (v # va))
                + (if loopRest (buf @ [chunk]) (v # va) = [] then 0 else 1)
       = (length (concat (buf @ [chunk])) + length (concat (v # va)) + partSize - 1) div partSize"
      using "3.IH" [OF rest "3.prems"(3) "3.prems"(4) dv lt] .
    show ?thesis using ih False by (simp add: add.assoc)
  qed
qed

section \<open>The stream loop: what it sends\<close>

lemma streamLoop_keep:
  "\<not> partSize \<le> length (concat (buf @ [chunk])) \<Longrightarrow>
     streamLoop store key uid (chunk # rest) (pn, parts, buf) w
       = streamLoop store key uid rest (pn, parts, buf @ [chunk]) w"
  by (simp add: Let_def)

lemma streamLoop_flush_failed:
  assumes "s3Client store = Some client" "partSize \<le> length (concat (buf @ [chunk]))"
    and "client (clientState w) (UploadPartCommand (bucketName store) key uid pn (concat (buf @ [chunk])))
           = (Inl e, s1)"
  shows "streamLoop store key uid (chunk # rest) (pn, parts, buf) w
     = (Inl e, \<lparr>clientState = s1,
                trace = trace w @ [Sent (UploadPartCommand (bucketName store) key uid pn
                                          (concat (buf @ [chunk]))) (Inl e)]\<rparr>)"
  using assms by (simp add: Let_def uploadPart_def send_def)

lemma streamLoop_flush_ok:
  assumes "s3Client store = Some client" "partSize \<le> length (concat (buf @ [chunk]))"
    and "client (clientState w) (UploadPartCommand (bucketName store) key uid pn (concat (buf @ [chunk])))
           = (Inr resp, s1)"
  shows "streamLoop store key uid (chunk # rest) (pn, parts, buf) w
     = streamLoop store key uid rest
         (pn + 1, parts @ [\<lparr>PartNumber = pn, PartETag = ETag resp\<rparr>], [])
         \<lparr>clientState = s1,
          trace = trace w @ [Sent (UploadPartCommand (bucketName store) key uid pn
                                    (concat (buf @ [chunk]))) (Inr resp)]\<rparr>"
  using assms by (simp add: Let_def uploadPart_def send_def)

lemma streamLoop_run:
  assumes c: "s3Client store = Some client"
  shows "streamLoop store key uid chunks (pn, parts, buf) w = (r, w') \<Longrightarrow>
     \<exists>resps. length resps + (case r of Inl e \<Rightarrow> 1 | Inr v \<Rightarrow> 0) \<le> length (loopParts buf chunks)
       \<and> sends (trace w')
           = sends (trace w)
               @ zip (uploadCommands (bucketName store) key uid pn (loopParts buf chunks))
                     (map Inr resps @ (case r of Inl e \<Rightarrow> [Inl e] | Inr v \<Rightarrow> []))
       \<and> (\<forall>pn' parts' buf'. r = Inr (pn', parts', buf') \<longrightarrow>
             length resps = length (loopParts buf chunks)
             \<and> pn' = pn + length resps \<and> buf' = loopRest buf chunks
             \<and> map PartNumber parts' = map PartNumber parts @ [pn ..< pn + length resps])"
proof (induction chunks arbitrary: pn parts buf w)
  case Nil
  then show ?case by (intro exI [of _ "[]"]) auto
next
  case (Cons chunk rest)
  let ?body = "concat (buf @ [chunk])"
  let ?cmd = "UploadPartCommand (bucketName store) key uid pn ?body"
  show ?case
  proof (cases "partSize \<le> length ?body")
    case False
    then have "streamLoop store key uid rest (pn, parts, buf @ [chunk]) w = (r, w')"
      using Cons.prems streamLoop_keep [of buf chunk store key uid rest pn parts w] by simp
    from Cons.IH [OF this] False show ?thesis by simp
  next
    case True
    obtain out s1 where out: "client (clientState w) ?cmd = (out, s1)"
      by (cases "client (clientState w) ?cmd")
    let ?w1 = "\<lparr>clientState = s1, trace = trace w @ [Sent ?cmd out]\<rparr>"
    show ?thesis
    proof (cases out)
      case (Inl e)
      then have o: "client (clientState w) ?cmd = (Inl e, s1)" using out by simp
      have "r = Inl e" "w' = ?w1"
        using Cons.prems streamLoop_flush_failed [OF c True o, of rest parts] Inl
        by simp_all
      then show ?thesis using True Inl by (intro exI [of _ "[]"]) simp
    next
      case (Inr resp)
      let ?parts1 = "parts @ [\<lparr>PartNumber = pn, PartETag = ETag resp\<rparr>]"
      have o: "client (clientState w) ?cmd = (Inr resp, s1)" using out Inr by simp
      have run: "streamLoop store key uid rest (pn + 1, ?parts1, []) ?w1 = (r, w')"
        using Cons.prems streamLoop_flush_ok [OF c True o, of rest parts] Inr
        by simp
      from Cons.IH [OF run] obtain resps where
        len: "length resps + (case r of Inl e \<Rightarrow> 1 | Inr v \<Rightarrow> 0) \<le> length (loopParts [] rest)"
        and tr: "sends (trace w')
           = sends (trace ?w1)
               @ zip (uploadCommands (bucketName store) key uid (pn + 1) (loopParts [] rest))
                     (map Inr resps @ (case r of Inl e \<Rightarrow> [Inl e] | Inr v \<Rightarrow> []))"
        and fin: "\<forall>pn' parts' buf'. r = Inr (pn', parts', buf') \<longrightarrow>
             length resps = length (loopParts [] rest)
             \<and> pn' = pn + 1 + length resps \<and> buf' = loopRest [] rest
             \<and> map PartNumber parts' = map PartNumber ?parts1 @ [pn + 1 ..< pn + 1 + length resps]"
        by blast
      have upt: "pn # [Suc pn ..< Suc (pn + n)] = [pn ..< Suc (pn + n)]" for n
        by (simp add: upt_conv_Cons)
      show ?thesis
      proof (intro exI [of _ "resp # resps"] conjI allI impI)
        show "length (resp # resps) + (case r of Inl e \<Rightarrow> 1 | Inr v \<Rightarrow> 0)
                \<le> length (loopParts buf (chunk # rest))"
          using len True by simp
        show "sends (trace w')
           = sends (trace w)
               @ zip (uploadCommands (bucketName store) key uid pn (loopParts buf (chunk # rest)))
                     (map Inr (resp # resps) @ (case r of Inl e \<Rightarrow> [Inl e] | Inr v \<Rightarrow> []))"
          using tr True Inr by simp
      next
        fix pn' parts' buf'
        assume r: "r = Inr (pn', parts', buf')"
        with fin have f: "length resps = length (loopParts [] rest)"
          "pn' = pn + 1 + length resps" "buf' = loopRest [] rest"
          "map PartNumber parts' = map PartNumber ?parts1 @ [pn + 1 ..< pn + 1 + length resps]"
          by blast+
        show "length (resp # resps) = length (loopParts buf (chunk # rest))"
          using f(1) True by simp
        show "pn' = pn + length (resp # resps)" using f(2) by simp
        show "buf' = loopRest buf (chunk # rest)" using f(3) True by simp
        show "map PartNumber parts' = map PartNumber parts @ [pn ..< pn + length (resp # resps)]"
          using f(4) upt [of "length resps"] by simp
      qed
    qed
  qed
qed

section \<open>Runs of commands\<close>

lemma length_uploadCommands [simp]: "length (uploadCommands b key uid n bodies) = length bodies"
  by (induction bodies arbitrary: n) auto

lemma uploadCommands_append:
  "uploadCommands b key uid n (xs @ ys)
     = uploadCommands b key uid n xs @ uploadCommands b key uid (n + length xs) ys"
  by (induction xs arbitrary: n) auto

lemma ran_refl: "sends (trace w') = sends (trace w) \<Longrightarrow> ran w w' [] (Inr v)"
  by (simp add: ran_def)

lemma ran_send:
  assumes "s3Client store = Some client" "send store cmd w = (out, w')"
  shows "ran w w' [cmd] out"
proof (cases out)
  case (Inl e)
  then show ?thesis
    using assms unfolding ran_def
    by (intro exI [of _ "[]"]) (auto simp: send_def split: prod.splits)
next
  case (Inr resp)
  then show ?thesis
    using assms unfolding ran_def
    by (intro exI [of _ "[resp]"]) (auto simp: send_def split: prod.splits)
qed

lemma ran_failed:
  assumes "ran w w' cmds (Inl e)"
  shows "ran w w' (cmds @ later) (Inl e)"
proof -
  from assms obtain resps where
    a: "sends (trace w') = sends (trace w) @ zip cmds (map Inr resps @ [Inl e])"
       "length resps < length cmds"
    by (auto simp: ran_def)
  have "zip (cmds @ later) (map Inr resps @ [Inl e]) = zip cmds (map Inr resps @ [Inl e])"
    using a(2) by (simp add: zip_append1)
  then show ?thesis
    unfolding ran_def using a by (intro exI [of _ resps]) simp
qed

lemma ran_seq:
  assumes "ran w w1 cmds1 (Inr v)" "ran w1 w2 cmds2 r"
  shows "ran w w2 (cmds1 @ cmds2) r"
proof -
  from assms(1) obtain resps1 where
    a: "sends (trace w1) = sends (trace w) @ zip cmds1 (map Inr resps1)"
       "length resps1 = length cmds1"
    by (auto simp: ran_def)
  from assms(2) obtain resps2 where
    b: "sends (trace w2) = sends (trace w1)
          @ zip cmds2 (map Inr resps2 @ (case r of Inl e \<Rightarrow> [Inl e] | Inr v \<Rightarrow> []))"
       "(case r of Inl e \<Rightarrow> length resps2 < length cmds2 | Inr v \<Rightarrow> length resps2 = length cmds2)"
    by (auto simp: ran_def)
  show ?thesis
    unfolding ran_def
  proof (intro exI [of _ "resps1 @ resps2"] conjI)
    show "sends (trace w2)
            = sends (trace w)
                @ zip (cmds1 @ cmds2)
                    (map Inr (resps1 @ resps2) @ (case r of Inl e \<Rightarrow> [Inl e] | Inr v \<Rightarrow> []))"
      using a b(1) by (simp add: zip_append)
    show "case r of Inl e \<Rightarrow> length (resps1 @ resps2) < length (cmds1 @ cmds2)
          | Inr v \<Rightarrow> length (resps1 @ resps2) = length (cmds1 @ cmds2)"
      using a(2) b(2) by (cases r) auto
  qed
qed

lemma ran_sends_before: "sends (trace w0) = sends (trace w) \<Longrightarrow> ran w w' cmds r \<Longrightarrow> ran w0 w' cmds r"
  by (simp add: ran_def)

lemma ran_value:
  "ran w w' cmds (Inr v :: jserror + 'a) \<Longrightarrow> ran w w' cmds (Inr v' :: jserror + 'b)"
  by (simp add: ran_def)

lemma ran_error:
  "ran w w' cmds (Inl e :: jserror + 'a) \<Longrightarrow> ran w w' cmds (Inl e :: jserror + 'b)"
  by (simp add: ran_def)

text \<open>The stream loop ran the uploads of the bodies it flushed.\<close>

lemma streamLoop_ran:
  assumes c: "s3Client store = Some client"
    and run: "streamLoop store key uid chunks (pn, parts, buf) w = (r, w')"
  shows "ran w w' (uploadCommands (bucketName store) key uid pn (loopParts buf chunks)) r"
    and "r = Inr (pn', parts', buf') \<Longrightarrow>
           pn' = pn + length (loopParts buf chunks) \<and> buf' = loopRest buf chunks
           \<and> map PartNumber parts' = map PartNumber parts @ [pn ..< pn + length (loopParts buf chunks)]"
proof -
  from streamLoop_run [OF c run] obtain resps where
    len: "length resps + (case r of Inl e \<Rightarrow> 1 | Inr v \<Rightarrow> 0) \<le> length (loopParts buf chunks)"
    and tr: "sends (trace w')
           = sends (trace w)
               @ zip (uploadCommands (bucketName store) key uid pn (loopParts buf chunks))
                     (map Inr resps @ (case r of Inl e \<Rightarrow> [Inl e] | Inr v \<Rightarrow> []))"
    and fin: "\<forall>pn' parts' buf'. r = Inr (pn', parts', buf') \<longrightarrow>
             length resps = length (loopParts buf chunks)
             \<and> pn' = pn + length resps \<and> buf' = loopRest buf chunks
             \<and> map PartNumber parts' = map PartNumber parts @ [pn ..< pn + length resps]"
    by blast
  have "case r of Inl e \<Rightarrow> length resps < length (uploadCommands (bucketName store) key uid pn (loopParts buf chunks))
        | Inr v \<Rightarrow> length resps = length (uploadCommands (bucketName store) key uid pn (loopParts buf chunks))"
  proof (cases r)
    case (Inl e)
    then show ?thesis using len by simp
  next
    case (Inr v)
    obtain a b c where "v = (a, b, c)" by (cases v)
    then show ?thesis using fin Inr by simp
  qed
  with tr show "ran w w' (uploadCommands (bucketName store) key uid pn (loopParts buf chunks)) r"
    unfolding ran_def by blast
  show "r = Inr (pn', parts', buf') \<Longrightarrow>
           pn' = pn + length (loopParts buf chunks) \<and> buf' = loopRest buf chunks
           \<and> map PartNumber parts' = map PartNumber parts @ [pn ..< pn + length (loopParts buf chunks)]"
    using fin by auto
qed


lemma uploadPart_ran:
  assumes c: "s3Client store = Some client"
    and run: "uploadPart store key uid pn parts buf w = (r, w')"
  shows "ran w w' [UploadPartCommand (bucketName store) key uid pn (concat buf)] r"
    and "r = Inr parts' \<Longrightarrow> map PartNumber parts' = map PartNumber parts @ [pn]"
proof -
  let ?cmd = "UploadPartCommand (bucketName store) key uid pn (concat buf)"
  obtain out w1 where s: "send store ?cmd w = (out, w1)" by (cases "send store ?cmd w")
  have w: "w' = w1" using run s by (cases out) (simp_all add: uploadPart_def)
  have "ran w w1 [?cmd] r"
  proof (cases out)
    case (Inl e)
    then have r: "r = Inl e" using run s by (simp add: uploadPart_def)
    have "ran w w1 [?cmd] (Inl e :: jserror + response)" using ran_send [OF c s] Inl by simp
    then have "ran w w1 [?cmd] (Inl e :: jserror + part list)" by (rule ran_error)
    then show ?thesis using r by simp
  next
    case (Inr resp)
    then have r: "r = Inr (parts @ [\<lparr>PartNumber = pn, PartETag = ETag resp\<rparr>])"
      using run s by (simp add: uploadPart_def)
    have "ran w w1 [?cmd] (Inr resp :: jserror + response)" using ran_send [OF c s] Inr by simp
    then have "ran w w1 [?cmd] (Inr (parts @ [\<lparr>PartNumber = pn, PartETag = ETag resp\<rparr>]) :: jserror + part list)"
      by (rule ran_value)
    then show ?thesis using r by simp
  qed
  then show "ran w w' [?cmd] r" using w by simp
  show "r = Inr parts' \<Longrightarrow> map PartNumber parts' = map PartNumber parts @ [pn]"
    using run s by (cases out) (auto simp: uploadPart_def)
qed

lemma send_unit_ran:
  assumes c: "s3Client store = Some client"
    and run: "(case send store cmd w of (Inl e, w1) \<Rightarrow> (Inl e, w1) | (Inr x, w1) \<Rightarrow> (Inr (), w1)) = (r, w')"
  shows "ran w w' [cmd] r"
proof -
  obtain out w1 where s: "send store cmd w = (out, w1)" by (cases "send store cmd w")
  show ?thesis
  proof (cases out)
    case (Inl e)
    then have r: "r = Inl e" "w' = w1" using run s by simp_all
    have "ran w w1 [cmd] (Inl e :: jserror + response)" using ran_send [OF c s] Inl by simp
    then have "ran w w1 [cmd] (Inl e :: jserror + unit)" by (rule ran_error)
    then show ?thesis using r by simp
  next
    case (Inr resp)
    then have r: "r = Inr ()" "w' = w1" using run s by simp_all
    have "ran w w1 [cmd] (Inr resp :: jserror + response)" using ran_send [OF c s] Inr by simp
    then have "ran w w1 [cmd] (Inr () :: jserror + unit)" by (rule ran_value)
    then show ?thesis using r by simp
  qed
qed

section \<open>The multipart upload\<close>

lemma multipartUpload_ran:
  assumes c: "s3Client store = Some client"
    and run: "multipartUpload store key file chunks w = (r, w')"
  shows "\<exists>uid parts.
           ran w w' (CreateMultipartUploadCommand (bucketName store) key ''private'' ''application/zip''
                       # uploadCommands (bucketName store) key uid 1 (partsOf chunks)
                       @ [CompleteMultipartUploadCommand (bucketName store) key uid parts]) r
           \<and> map PartNumber parts = [1 ..< 1 + length (partsOf chunks)]"
proof -
  let ?b = "bucketName store"
  let ?create = "CreateMultipartUploadCommand ?b key ''private'' ''application/zip''"
  let ?w1 = "consoleLog (''[S3 Store] Uploading Multiepart File '' @ file) w"
  let ?n = "length (loopParts [] chunks)"
  let ?rem = "if length (loopRest [] chunks) > 0 then [concat (loopRest [] chunks)] else []"
  have "map PartNumber (map (\<lambda>n. \<lparr>PartNumber = n, PartETag = None\<rparr>)
          [1 ..< 1 + length (partsOf chunks)]) = [1 ..< 1 + length (partsOf chunks)]"
    by (simp add: comp_def del: upt_Suc)
  then obtain dummy :: "part list"
    where dummy: "map PartNumber dummy = [1 ..< 1 + length (partsOf chunks)]"
    by blast
  have split: "uploadCommands ?b key uid (Suc 0) (partsOf chunks)
                 = uploadCommands ?b key uid (Suc 0) (loopParts [] chunks)
                     @ uploadCommands ?b key uid (Suc ?n) ?rem" for uid
    by (simp add: partsOf_def uploadCommands_append)
  obtain outC w2 where sc: "send store ?create ?w1 = (outC, w2)"
    by (cases "send store ?create ?w1")
  have rc: "ran w w2 [?create] outC"
    using ran_send [OF c sc] by (rule ran_sends_before [rotated]) simp
  show ?thesis
  proof (cases outC)
    case (Inl e)
    then have r: "r = Inl e" "w' = w2" using run sc by (simp_all add: multipartUpload_def)
    have "ran w w2 [?create] (Inl e :: jserror + unit)"
      using rc Inl ran_error [of w w2 "[?create]" e] by simp
    from ran_failed [OF this, of "uploadCommands ?b key None 1 (partsOf chunks)
                       @ [CompleteMultipartUploadCommand ?b key None dummy]"]
    show ?thesis using r dummy by (intro exI [of _ None] exI [of _ dummy]) simp
  next
    case (Inr created)
    let ?uid = "UploadId created"
    have rc': "ran w w2 [?create] (Inr created :: jserror + response)" using rc Inr by simp
    obtain r1 w3 where sl: "streamLoop store key ?uid chunks (1, [], []) w2 = (r1, w3)"
      by (cases "streamLoop store key ?uid chunks (1, [], []) w2")
    note loop = streamLoop_ran [OF c sl]
    have r12: "ran w w3 ([?create] @ uploadCommands ?b key ?uid 1 (loopParts [] chunks)) r1"
      by (rule ran_seq [OF rc' loop(1)])
    show ?thesis
    proof (cases r1)
      case (Inl e)
      then have r: "r = Inl e" "w' = w3" using run sc sl Inr by (simp_all add: multipartUpload_def)
      have "ran w w3 ([?create] @ uploadCommands ?b key ?uid 1 (loopParts [] chunks)) (Inl e :: jserror + unit)"
        using r12 Inl ran_error [of w w3 _ e] by simp
      from ran_failed [OF this, of "uploadCommands ?b key ?uid (1 + ?n) ?rem
                       @ [CompleteMultipartUploadCommand ?b key ?uid dummy]"]
      have "ran w w3 (?create # uploadCommands ?b key ?uid 1 (partsOf chunks)
                       @ [CompleteMultipartUploadCommand ?b key ?uid dummy]) (Inl e :: jserror + unit)"
        by (simp add: split)
      then show ?thesis using r dummy by (intro exI [of _ ?uid] exI [of _ dummy]) simp
    next
      case (Inr vars)
      obtain pn' parts1 buf' where vars: "vars = (pn', parts1, buf')" by (cases vars)
      have fin: "pn' = 1 + ?n" "buf' = loopRest [] chunks"
        "map PartNumber parts1 = [1 ..< 1 + ?n]"
        using loop(2) [of pn' parts1 buf'] Inr vars by simp_all
      have r12': "ran w w3 ([?create] @ uploadCommands ?b key ?uid 1 (loopParts [] chunks))
                    (Inr vars :: jserror + nat \<times> part list \<times> buffer list)"
        using r12 Inr by simp
      let ?remainder = "if length buf' > 0 then uploadPart store key ?uid pn' parts1 buf' w3
                        else (Inr parts1, w3)"
      obtain rR w4 where rem: "?remainder = (rR, w4)" by (cases ?remainder)
      have rrem: "ran w3 w4 (uploadCommands ?b key ?uid (1 + ?n) ?rem) rR"
        and prem: "\<And>parts'. rR = Inr parts' \<Longrightarrow>
                     map PartNumber parts' = [1 ..< 1 + length (partsOf chunks)]"
      proof -
        show "ran w3 w4 (uploadCommands ?b key ?uid (1 + ?n) ?rem) rR"
        proof (cases "length buf' > 0")
          case True
          then have "uploadPart store key ?uid pn' parts1 buf' w3 = (rR, w4)" using rem by simp
          from uploadPart_ran(1) [OF c this] show ?thesis using True fin by simp
        next
          case False
          then have "rR = Inr parts1" "w4 = w3" using rem by simp_all
          then show ?thesis using False fin ran_refl [of w3 w3 parts1] by simp
        qed
        fix parts'
        assume ok: "rR = Inr parts'"
        show "map PartNumber parts' = [1 ..< 1 + length (partsOf chunks)]"
        proof (cases "length buf' > 0")
          case True
          then have "uploadPart store key ?uid pn' parts1 buf' w3 = (rR, w4)" using rem by simp
          from uploadPart_ran(2) [OF c this ok] show ?thesis
            using True fin by (simp add: partsOf_def)
        next
          case False
          then have "rR = Inr parts1" using rem by simp
          then show ?thesis using ok False fin by (simp add: partsOf_def)
        qed
      qed
      have r13: "ran w w4 (?create # uploadCommands ?b key ?uid 1 (partsOf chunks)) rR"
        using ran_seq [OF r12' rrem] by (simp add: split)
      show ?thesis
      proof (cases rR)
        case (Inl e)
        then have r: "r = Inl e" "w' = w4"
          using run sc sl \<open>outC = Inr created\<close> \<open>r1 = Inr vars\<close> vars rem
          by (simp_all add: multipartUpload_def)
        have "ran w w4 (?create # uploadCommands ?b key ?uid 1 (partsOf chunks)) (Inl e :: jserror + unit)"
          using r13 Inl ran_error [of w w4 _ e] by simp
        from ran_failed [OF this, of "[CompleteMultipartUploadCommand ?b key ?uid dummy]"]
        show ?thesis using r dummy by (intro exI [of _ ?uid] exI [of _ dummy]) simp
      next
        case (Inr parts')
        let ?complete = "CompleteMultipartUploadCommand ?b key ?uid parts'"
        have fin': "(case send store ?complete w4 of (Inl e, w5) \<Rightarrow> (Inl e, w5)
                      | (Inr x, w5) \<Rightarrow> (Inr (), w5)) = (r, w')"
          using run sc sl \<open>outC = Inr created\<close> \<open>r1 = Inr vars\<close> vars rem Inr
          by (simp add: multipartUpload_def)
        have r13': "ran w w4 (?create # uploadCommands ?b key ?uid 1 (partsOf chunks))
                      (Inr parts' :: jserror + part list)"
          using r13 Inr by simp
        have "ran w w' ((?create # uploadCommands ?b key ?uid 1 (partsOf chunks)) @ [?complete]) r"
          by (rule ran_seq [OF r13' send_unit_ran [OF c fin']])
        then show ?thesis using prem [OF Inr] by (intro exI [of _ ?uid] exI [of _ parts']) simp
      qed
    qed
  qed
qed

section \<open>What save sends\<close>

lemma ran_extends: "ran w w' cmds r \<Longrightarrow> sends (trace w') = sends (trace w) @ sentBy w w'"
  by (auto simp: ran_def sentBy_def)

lemma sentBy_append: "sends (trace w') = sends (trace w) @ xs \<Longrightarrow> sentBy w w' = xs"
  by (simp add: sentBy_def)

lemma transfer_stat_failed:
  "fs rt (template (session opts) @ ''.zip'') = Inl e \<Longrightarrow>
     transfer rt store opts key w = (Inl e, w)"
  by (simp add: transfer_def)

lemma transfer_ran:
  assumes c: "s3Client store = Some client"
    and fl: "fs rt (template (session opts) @ ''.zip'') = Inr chunks"
    and run: "transfer rt store opts key w = (r, w')"
  shows "\<exists>uid parts.
           ran w w'
             (if length (concat chunks) \<le> singleUploadLimit
              then [PutObjectCommand (bucketName store) key chunks ''application/zip'' ''Enabled'' ''gzip'']
              else CreateMultipartUploadCommand (bucketName store) key ''private'' ''application/zip''
                     # uploadCommands (bucketName store) key uid 1 (partsOf chunks)
                     @ [CompleteMultipartUploadCommand (bucketName store) key uid parts]) r
           \<and> map PartNumber parts = [1 ..< 1 + length (partsOf chunks)]"
proof (cases "length (concat chunks) \<le> singleUploadLimit")
  case True
  let ?file = "template (session opts) @ ''.zip''"
  let ?w1 = "consoleLog (''[S3 Store] Uploading Single File '' @ ?file) w"
  let ?put = "PutObjectCommand (bucketName store) key chunks ''application/zip'' ''Enabled'' ''gzip''"
  have "(case send store ?put ?w1 of (Inl e, w2) \<Rightarrow> (Inl e, w2) | (Inr x, w2) \<Rightarrow> (Inr (), w2))
          = (r, w')"
    using run fl True by (simp add: transfer_def)
  from send_unit_ran [OF c this] have "ran w w' [?put] r"
    by (rule ran_sends_before [rotated]) simp
  moreover obtain dummy :: "part list"
    where "map PartNumber dummy = [1 ..< 1 + length (partsOf chunks)]"
  proof -
    have "map PartNumber (map (\<lambda>n. \<lparr>PartNumber = n, PartETag = None\<rparr>)
          [1 ..< 1 + length (partsOf chunks)]) = [1 ..< 1 + length (partsOf chunks)]"
      by (simp add: comp_def del: upt_Suc)
    then show ?thesis using that by blast
  qed
  ultimately show ?thesis using True by auto
next
  case False
  then have "multipartUpload store key (template (session opts) @ ''.zip'') chunks w = (r, w')"
    using run fl by (simp add: transfer_def)
  from multipartUpload_ran [OF c this] show ?thesis using False by simp
qed

text \<open>\<open>save\<close> after a validation that passed.\<close>

lemma save_after_valid:
  assumes valid: "fst (isValidConfig store opts w)" and c: "s3Client store = Some client"
    and k: "remoteKey rt store opts = Inr key"
    and list: "client (clientState w) (ListObjectsCommand (bucketName store)) = (probe, s1)"
  shows "\<exists>w2 w3. sends (trace w2) = sends (trace w) @ [(ListObjectsCommand (bucketName store), probe)]
           \<and> transfer rt store (opts\<lparr>remoteFilePath := Some key\<rparr>) key w2
                = (fst (save rt store opts w), w3)
           \<and> sends (trace (snd (snd (save rt store opts w)))) = sends (trace w3)
           \<and> fst (snd (save rt store opts w)) = opts\<lparr>remoteFilePath := Some key\<rparr>"
proof -
  let ?w1 = "debugLog store ''[METHOD: save] Triggered.'' w"
  let ?opts' = "opts\<lparr>remoteFilePath := Some key\<rparr>"
  obtain v w2 where v: "isValidConfig store opts ?w1 = (v, w2)"
    by (cases "isValidConfig store opts ?w1")
  have vt: "v = True"
    using v valid isValidConfig_debugLog_fst [of store opts _ w] by (metis fst_conv)
  have tr: "sends (trace w2) = sends (trace w) @ [(ListObjectsCommand (bucketName store), probe)]"
    using v isValidConfig_debugLog_sends [of store opts "''[METHOD: save] Triggered.''" w]
      isValidConfig_valid_sends [OF valid c] list by simp
  obtain r w3 where t: "transfer rt store ?opts' key w2 = (r, w3)"
    by (cases "transfer rt store ?opts' key w2")
  have "fst (save rt store opts w) = r
        \<and> sends (trace (snd (snd (save rt store opts w)))) = sends (trace w3)
        \<and> fst (snd (save rt store opts w)) = ?opts'"
    using v vt k t by (cases r) (simp_all add: save_def)
  then show ?thesis using tr t by blast
qed


lemma save_stat_failed:
  assumes valid: "fst (isValidConfig store opts w)" and c: "s3Client store = Some client"
    and k: "remoteKey rt store opts = Inr key"
    and list: "client (clientState w) (ListObjectsCommand (bucketName store)) = (probe, s1)"
    and fl: "fs rt (template (session opts) @ ''.zip'') = Inl e"
  shows "fst (save rt store opts w) = Inl e"
    and "sentBy w (snd (snd (save rt store opts w)))
           = [(ListObjectsCommand (bucketName store), probe)]"
proof -
  from save_after_valid [OF valid c k list] obtain w2 w3 where
    a: "sends (trace w2) = sends (trace w) @ [(ListObjectsCommand (bucketName store), probe)]"
    and b: "transfer rt store (opts\<lparr>remoteFilePath := Some key\<rparr>) key w2
              = (fst (save rt store opts w), w3)"
    and d: "sends (trace (snd (snd (save rt store opts w)))) = sends (trace w3)"
    by blast
  have t: "transfer rt store (opts\<lparr>remoteFilePath := Some key\<rparr>) key w2 = (Inl e, w2)"
    using transfer_stat_failed [of rt "opts\<lparr>remoteFilePath := Some key\<rparr>" e store key w2] fl
    by simp
  show "fst (save rt store opts w) = Inl e" using b t by simp
  have "w3 = w2" using b t by simp
  then show "sentBy w (snd (snd (save rt store opts w)))
           = [(ListObjectsCommand (bucketName store), probe)]"
    using a d by (simp add: sentBy_append)
qed

lemma save_sent:
  assumes valid: "fst (isValidConfig store opts (w :: 's world))"
    and c: "s3Client store = Some client"
    and k: "remoteKey rt store opts = Inr key"
    and list: "client (clientState w) (ListObjectsCommand (bucketName store)) = (probe, s1)"
    and fl: "fs rt (template (session opts) @ ''.zip'') = Inr chunks"
  shows "\<exists>uid parts (w2 :: 's world) (w3 :: 's world).
           sentBy w (snd (snd (save rt store opts w)))
             = (ListObjectsCommand (bucketName store), probe) # sentBy w2 w3
           \<and> ran w2 w3
               (if length (concat chunks) \<le> singleUploadLimit
                then [PutObjectCommand (bucketName store) key chunks ''application/zip'' ''Enabled'' ''gzip'']
                else CreateMultipartUploadCommand (bucketName store) key ''private'' ''application/zip''
                       # uploadCommands (bucketName store) key uid 1 (partsOf chunks)
                       @ [CompleteMultipartUploadCommand (bucketName store) key uid parts])
               (fst (save rt store opts w))
           \<and> map PartNumber parts = [1 ..< 1 + length (partsOf chunks)]"
proof -
  from save_after_valid [OF valid c k list] obtain w2 w3 where
    a: "sends (trace w2) = sends (trace w) @ [(ListObjectsCommand (bucketName store), probe)]"
    and b: "transfer rt store (opts\<lparr>remoteFilePath := Some key\<rparr>) key w2
              = (fst (save rt store opts w), w3)"
    and d: "sends (trace (snd (snd (save rt store opts w)))) = sends (trace w3)"
    by blast
  have fl': "fs rt (template (session (opts\<lparr>remoteFilePath := Some key\<rparr>)) @ ''.zip'') = Inr chunks"
    using fl by simp
  from transfer_ran [OF c fl' b] obtain uid parts where
    r: "ran w2 w3
               (if length (concat chunks) \<le> singleUploadLimit
                then [PutObjectCommand (bucketName store) key chunks ''application/zip'' ''Enabled'' ''gzip'']
                else CreateMultipartUploadCommand (bucketName store) key ''private'' ''application/zip''
                       # uploadCommands (bucketName store) key uid 1 (partsOf chunks)
                       @ [CompleteMultipartUploadCommand (bucketName store) key uid parts])
               (fst (save rt store opts w))"
    and p: "map PartNumber parts = [1 ..< 1 + length (partsOf chunks)]"
    by blast
  have "sends (trace (snd (snd (save rt store opts w))))
          = sends (trace w) @ (ListObjectsCommand (bucketName store), probe) # sentBy w2 w3"
    using a d ran_extends [OF r] by simp
  then have s: "sentBy w (snd (snd (save rt store opts w)))
             = (ListObjectsCommand (bucketName store), probe) # sentBy w2 w3"
    by (rule sentBy_append)
  show ?thesis
    by (rule exI [of _ uid], rule exI [of _ parts], rule exI [of _ w2], rule exI [of _ w3])
      (rule conjI [OF s conjI [OF r p]])
qed

text \<open>Reading a run.\<close>

lemma ran_sentBy:
  assumes "ran w w' cmds r"
  shows "\<exists>resps. sentBy w w' = zip cmds (map Inr resps @ (case r of Inl e \<Rightarrow> [Inl e] | Inr v \<Rightarrow> []))
           \<and> (case r of Inl e \<Rightarrow> length resps < length cmds | Inr v \<Rightarrow> length resps = length cmds)"
  using assms by (auto simp: ran_def sentBy_def)

lemma ran_ok_commands: "ran w w' cmds (Inr v) \<Longrightarrow> map fst (sentBy w w') = cmds"
  using ran_sentBy [of w w' cmds "Inr v"] by auto

lemma ran_prefix: "ran w w' cmds r \<Longrightarrow> map fst (sentBy w w') = take (length (sentBy w w')) cmds"
proof -
  assume "ran w w' cmds r"
  from ran_sentBy [OF this] obtain resps where
    s: "sentBy w w' = zip cmds (map Inr resps @ (case r of Inl e \<Rightarrow> [Inl e] | Inr v \<Rightarrow> []))"
    by blast
  show ?thesis unfolding s by (simp add: take_map [symmetric] map_fst_zip_take min_def)
qed

lemma ran_outcomes:
  "ran w w' cmds r \<Longrightarrow>
     \<exists>resps. map snd (sentBy w w') = map Inr resps @ (case r of Inl e \<Rightarrow> [Inl e] | Inr v \<Rightarrow> [])"
proof -
  assume "ran w w' cmds r"
  from ran_sentBy [OF this] obtain resps where
    s: "sentBy w w' = zip cmds (map Inr resps @ (case r of Inl e \<Rightarrow> [Inl e] | Inr v \<Rightarrow> []))"
    and l: "(case r of Inl e \<Rightarrow> length resps < length cmds | Inr v \<Rightarrow> length resps = length cmds)"
    by blast
  have "length (map Inr resps @ (case r of Inl e \<Rightarrow> [Inl e] | Inr v \<Rightarrow> [])) \<le> length cmds"
    using l by (cases r) auto
  then have "map snd (sentBy w w') = map Inr resps @ (case r of Inl e \<Rightarrow> [Inl e] | Inr v \<Rightarrow> [])"
    unfolding s by (simp add: map_snd_zip_take min_def)
  then show ?thesis by blast
qed

section \<open>Reading the commands of an upload\<close>

lemma uploadCommands_kind:
  "c \<in> set (uploadCommands b key uid n bodies) \<Longrightarrow>
     isUploadPart c \<and> \<not> isPut c \<and> \<not> isAbort c \<and> \<not> isCreate c \<and> \<not> isComplete c"
  by (induction bodies arbitrary: n) auto

lemma partNumbers_uploadCommands [simp]:
  "partNumbers (uploadCommands b key uid n bodies) = [n ..< n + length bodies]"
  by (induction bodies arbitrary: n) (simp_all add: upt_conv_Cons del: upt_Suc)

lemma partBodies_uploadCommands [simp]:
  "partBodies (uploadCommands b key uid n bodies) = bodies"
  by (induction bodies arbitrary: n) auto

lemma partNumbers_append [simp]: "partNumbers (xs @ ys) = partNumbers xs @ partNumbers ys"
  by (induction xs rule: partNumbers.induct) auto

lemma partBodies_append [simp]: "partBodies (xs @ ys) = partBodies xs @ partBodies ys"
  by (induction xs rule: partBodies.induct) auto

lemma completedParts_append [simp]: "completedParts (xs @ ys) = completedParts xs @ completedParts ys"
  by (induction xs rule: completedParts.induct) auto

lemma completedParts_uploadCommands [simp]:
  "completedParts (uploadCommands b key uid n bodies) = []"
  by (induction bodies arbitrary: n) auto

lemma putBodies_append [simp]: "putBodies (xs @ ys) = putBodies xs @ putBodies ys"
  by (induction xs rule: putBodies.induct) auto

lemma partsOf_nonempty: "chunks \<noteq> [] \<Longrightarrow> partsOf chunks \<noteq> []"
  using loop_some_part [of chunks "[]"] by (auto simp: partsOf_def)

text \<open>A client that never fails lets every step through.\<close>

lemma send_neverFails:
  "s3Client store = Some client \<Longrightarrow> neverFails client \<Longrightarrow>
     \<exists>resp w'. send store cmd w = (Inr resp, w')"
proof -
  assume c: "s3Client store = Some client" and n: "neverFails client"
  obtain out s1 where o: "client (clientState w) cmd = (out, s1)"
    by (cases "client (clientState w) cmd")
  from n obtain resp where "fst (client (clientState w) cmd) = Inr resp"
    unfolding neverFails_def by blast
  then have "out = Inr resp" using o by simp
  then show ?thesis using c o by (simp add: send_def)
qed

lemma uploadPart_neverFails:
  assumes "s3Client store = Some client" "neverFails client"
  shows "\<exists>parts' w'. uploadPart store key uid pn parts buf w = (Inr parts', w')"
proof -
  from send_neverFails [OF assms] obtain resp w' where
    "send store (UploadPartCommand (bucketName store) key uid pn (concat buf)) w = (Inr resp, w')"
    by blast
  then show ?thesis by (simp add: uploadPart_def)
qed

lemma streamLoop_neverFails:
  assumes c: "s3Client store = Some client" and n: "neverFails client"
  shows "\<exists>vars w'. streamLoop store key uid chunks (pn, parts, buf) w = (Inr vars, w')"
proof (induction chunks arbitrary: pn parts buf w)
  case Nil
  then show ?case by simp
next
  case (Cons chunk rest)
  show ?case
  proof (cases "partSize \<le> length (concat (buf @ [chunk]))")
    case False
    obtain vars w' where
      "streamLoop store key uid rest (pn, parts, buf @ [chunk]) w = (Inr vars, w')"
      using Cons.IH [of pn parts "buf @ [chunk]" w] by blast
    then show ?thesis using False by (cases vars) (simp add: Let_def)
  next
    case True
    from uploadPart_neverFails [OF c n] obtain parts' w1 where
      u: "uploadPart store key uid pn parts (buf @ [chunk]) w = (Inr parts', w1)" by blast
    from Cons.IH [of "pn + 1" parts' "[]" w1] obtain vars w' where
      "streamLoop store key uid rest (pn + 1, parts', []) w1 = (Inr vars, w')" by blast
    then show ?thesis using True u by (cases vars) (simp add: Let_def)
  qed
qed

lemma multipartUpload_neverFails:
  assumes c: "s3Client store = Some client" and n: "neverFails client"
  shows "fst (multipartUpload store key archive chunks w) = Inr ()"
proof -
  let ?w1 = "consoleLog (''[S3 Store] Uploading Multiepart File '' @ archive) w"
  from send_neverFails [OF c n] obtain created w2 where
    a: "send store (CreateMultipartUploadCommand (bucketName store) key ''private'' ''application/zip'') ?w1
          = (Inr created, w2)" by blast
  from streamLoop_neverFails [OF c n] obtain vars w3 where
    b: "streamLoop store key (UploadId created) chunks (1, [], []) w2 = (Inr vars, w3)" by blast
  obtain pn' parts1 buf' where vars: "vars = (pn', parts1, buf')" by (cases vars)
  have "\<exists>parts' w4. (if length buf' > 0 then uploadPart store key (UploadId created) pn' parts1 buf' w3
         else (Inr parts1, w3)) = (Inr parts', w4)"
  proof (cases "length buf' > 0")
    case True
    then show ?thesis
      using uploadPart_neverFails [OF c n, of key "UploadId created" pn' parts1 buf' w3] by simp
  next
    case False
    then show ?thesis by simp
  qed
  then obtain parts' w4 where
    d: "(if length buf' > 0 then uploadPart store key (UploadId created) pn' parts1 buf' w3
         else (Inr parts1, w3)) = (Inr parts', w4)"
    by blast
  from send_neverFails [OF c n] obtain completed w5 where
    e: "send store (CompleteMultipartUploadCommand (bucketName store) key (UploadId created) parts') w4
          = (Inr completed, w5)" by blast
  show ?thesis using a b vars d e by (simp add: multipartUpload_def)
qed

lemma save_neverFails:
  assumes valid: "fst (isValidConfig store opts w)" and c: "s3Client store = Some client"
    and n: "neverFails client"
    and fl: "fs rt (template (session opts) @ ''.zip'') = Inr chunks"
  shows "fst (save rt store opts w) = Inr ()"
proof -
  have "\<not> falsy (remoteDataPath store)" using valid isValidConfig_True by blast
  then obtain key where k: "remoteKey rt store opts = Inr key"
    using remoteKey_valid [of store rt opts] by blast
  obtain probe s1 where list: "client (clientState w) (ListObjectsCommand (bucketName store)) = (probe, s1)"
    by (cases "client (clientState w) (ListObjectsCommand (bucketName store))")
  from save_after_valid [OF valid c k list] obtain w2 w3 where
    b: "transfer rt store (opts\<lparr>remoteFilePath := Some key\<rparr>) key w2
              = (fst (save rt store opts w), w3)"
    by blast
  let ?put = "PutObjectCommand (bucketName store) key chunks ''application/zip'' ''Enabled'' ''gzip''"
  let ?w = "consoleLog (''[S3 Store] Uploading Single File '' @ (template (session opts) @ ''.zip'')) w2"
  from send_neverFails [OF c n] obtain stored w4 where
    p: "send store ?put ?w = (Inr stored, w4)" by blast
  have "fst (transfer rt store (opts\<lparr>remoteFilePath := Some key\<rparr>) key w2) = Inr ()"
    using fl p multipartUpload_neverFails [OF c n]
    by (simp add: transfer_def Let_def)
  then show ?thesis using b by simp
qed

section \<open>save: one put or a multipart upload\<close>

lemma no_put_in_multipart:
  "filter isPut (take k (CreateMultipartUploadCommand b key acl ct
                           # uploadCommands b key uid n bodies
                           @ [CompleteMultipartUploadCommand b key uid parts])) = []"
proof -
  let ?cmds = "CreateMultipartUploadCommand b key acl ct
                 # uploadCommands b key uid n bodies
                 @ [CompleteMultipartUploadCommand b key uid parts]"
  have u: "\<not> isPut c" if "c \<in> set (uploadCommands b key uid n bodies)" for c
    using uploadCommands_kind [OF that] by simp
  have "\<not> isPut c" if "c \<in> set ?cmds" for c
    using that u by auto
  moreover have "set (take k ?cmds) \<subseteq> set ?cmds" by (rule set_take_subset)
  ultimately have "\<forall>c \<in> set (take k ?cmds). \<not> isPut c" by blast
  then show ?thesis by (simp only: filter_empty_conv) 
qed

lemma valid_client: "fst (isValidConfig store opts w) \<Longrightarrow> \<exists>client. s3Client store = Some client"
  using isValidConfig_True [of store opts w] by auto

text \<open>
  C2. After a validation that passed, on an archive that \<open>statSync\<close> finds: when its size
  is at most 4 GiB, \<open>save\<close> sends, after the list probe, the one put of the whole stream and
  nothing else, whatever the put answers; when its size is above 4 GiB, it sends no put,
  and when it then returns normally it has sent, after the list probe, the create, the
  uploads of one or more parts under the numbers from 1 and the complete, in this order
  and nothing else. With a client that never fails it does return normally.
\<close>

theorem save_strategy:
  assumes valid: "fst (isValidConfig store opts (w :: 's world))"
    and k: "remoteKey rt store opts = Inr key"
    and fl: "fs rt (template (session opts) @ ''.zip'') = Inr chunks"
  shows "(length (concat chunks) \<le> singleUploadLimit \<longrightarrow>
            map fst (sentBy w (snd (snd (save rt store opts w))))
              = [ListObjectsCommand (bucketName store),
                 PutObjectCommand (bucketName store) key chunks ''application/zip'' ''Enabled'' ''gzip''])
       \<and> (singleUploadLimit < length (concat chunks) \<longrightarrow>
            filter isPut (map fst (sentBy w (snd (snd (save rt store opts w))))) = []
          \<and> (fst (save rt store opts w) = Inr () \<longrightarrow>
               (\<exists>uploadId parts bodies. bodies \<noteq> []
                  \<and> map fst (sentBy w (snd (snd (save rt store opts w))))
                      = ListObjectsCommand (bucketName store)
                          # CreateMultipartUploadCommand (bucketName store) key ''private'' ''application/zip''
                          # uploadCommands (bucketName store) key uploadId 1 bodies
                          @ [CompleteMultipartUploadCommand (bucketName store) key uploadId parts])))
       \<and> (\<forall>client. s3Client store = Some client \<and> neverFails client \<longrightarrow>
             fst (save rt store opts w) = Inr ())"
proof -
  let ?w' = "snd (snd (save rt store opts w))"
  let ?r = "fst (save rt store opts w)"
  let ?b = "bucketName store"
  from valid_client [OF valid] obtain client where c: "s3Client store = Some client" by blast
  obtain probe s1 where list: "client (clientState w) (ListObjectsCommand ?b) = (probe, s1)"
    by (cases "client (clientState w) (ListObjectsCommand ?b)")
  from save_sent [OF valid c k list fl] obtain uid parts and w2 w3 :: "'s world" where
    s: "sentBy w ?w' = (ListObjectsCommand ?b, probe) # sentBy w2 w3"
    and r: "ran w2 w3
               (if length (concat chunks) \<le> singleUploadLimit
                then [PutObjectCommand ?b key chunks ''application/zip'' ''Enabled'' ''gzip'']
                else CreateMultipartUploadCommand ?b key ''private'' ''application/zip''
                       # uploadCommands ?b key uid 1 (partsOf chunks)
                       @ [CompleteMultipartUploadCommand ?b key uid parts]) ?r"
    by (elim exE conjE) (rule that)
  have small: "map fst (sentBy w ?w')
              = [ListObjectsCommand ?b,
                 PutObjectCommand ?b key chunks ''application/zip'' ''Enabled'' ''gzip'']"
    if le: "length (concat chunks) \<le> singleUploadLimit"
  proof -
    let ?put = "PutObjectCommand ?b key chunks ''application/zip'' ''Enabled'' ''gzip''"
    have r1: "ran w2 w3 [?put] ?r" using r le by simp
    from ran_sentBy [OF r1] obtain resps where
      z: "sentBy w2 w3 = zip [?put] (map Inr resps @ (case ?r of Inl e \<Rightarrow> [Inl e] | Inr v \<Rightarrow> []))"
      and l: "(case ?r of Inl e \<Rightarrow> length resps < length [?put] | Inr v \<Rightarrow> length resps = length [?put])"
      by blast
    have "map fst (sentBy w2 w3) = [?put]"
    proof (cases ?r)
      case (Inl e)
      then have "resps = []" using l by simp
      then show ?thesis using z Inl by simp
    next
      case (Inr v)
      then show ?thesis using ran_ok_commands [of w2 w3 "[?put]" v] r1 by simp
    qed
    then show ?thesis using s by simp
  qed
  have big1: "filter isPut (map fst (sentBy w ?w')) = []"
    if gt: "singleUploadLimit < length (concat chunks)"
  proof -
    let ?cmds = "CreateMultipartUploadCommand ?b key ''private'' ''application/zip''
                       # uploadCommands ?b key uid 1 (partsOf chunks)
                       @ [CompleteMultipartUploadCommand ?b key uid parts]"
    have r1: "ran w2 w3 ?cmds ?r" using r gt by simp
    have "map fst (sentBy w2 w3) = take (length (sentBy w2 w3)) ?cmds"
      by (rule ran_prefix [OF r1])
    then have "filter isPut (map fst (sentBy w2 w3)) = []"
      using no_put_in_multipart [of "length (sentBy w2 w3)" ?b key "''private''" "''application/zip''" uid 1 "partsOf chunks" parts]
      by simp
    then show ?thesis using s by simp
  qed
  have big2: "\<exists>uploadId parts bodies. bodies \<noteq> []
                  \<and> map fst (sentBy w ?w')
                      = ListObjectsCommand ?b
                          # CreateMultipartUploadCommand ?b key ''private'' ''application/zip''
                          # uploadCommands ?b key uploadId 1 bodies
                          @ [CompleteMultipartUploadCommand ?b key uploadId parts]"
    if gt: "singleUploadLimit < length (concat chunks)" and ok: "?r = Inr ()"
  proof -
    let ?cmds = "CreateMultipartUploadCommand ?b key ''private'' ''application/zip''
                       # uploadCommands ?b key uid 1 (partsOf chunks)
                       @ [CompleteMultipartUploadCommand ?b key uid parts]"
    have r1: "ran w2 w3 ?cmds (Inr () :: jserror + unit)" using r gt ok by simp
    have m: "map fst (sentBy w ?w') = ListObjectsCommand ?b # ?cmds"
      using ran_ok_commands [OF r1] s by simp
    have "chunks \<noteq> []" using gt by auto
    then have ne: "partsOf chunks \<noteq> []" by (rule partsOf_nonempty)
    show ?thesis
      by (rule exI [of _ uid], rule exI [of _ parts], rule exI [of _ "partsOf chunks"])
        (rule conjI [OF ne m])
  qed
  have never: "\<forall>client. s3Client store = Some client \<and> neverFails client \<longrightarrow> ?r = Inr ()"
  proof (intro allI impI, elim conjE)
    fix client'
    assume a: "s3Client store = Some client'" and b: "neverFails client'"
    show "?r = Inr ()" by (rule save_neverFails [OF valid a b fl])
  qed
  show ?thesis
    apply (intro conjI impI)
       apply (erule small)
      apply (erule big1)
     apply (erule (1) big2)
    apply (rule never)
    done
qed


lemma bigFile_size: "length (concat bigFile) = 4831838208"
  by (simp add: bigFile_def length_concat sum_list_replicate)

lemma okClient_neverFails: "neverFails okClient"
  by (simp add: neverFails_def okClient_def)

lemma demo_valid: "fst (isValidConfig (demoStore okClient) demoOptions (freshWorld ()))"
  by (simp add: demo_simps okClient_def)

lemma demo_key:
  "remoteKey (posixRuntime files) (demoStore okClient) demoOptions = Inr ''dev/wwebjs-auth/work-phone.zip''"
  by (simp add: demo_simps)

lemma demo_file:
  "fs (posixRuntime (oneFile ''work-phone.zip'' chunks)) (template (session demoOptions) @ ''.zip'')
     = Inr chunks"
  by (simp add: demo_simps oneFile_def)

theorem save_strategy_witness:
  "map fst (sentBy (freshWorld ())
       (snd (snd (save (posixRuntime (oneFile ''work-phone.zip'' smallFile)) (demoStore okClient)
                    demoOptions (freshWorld ())))))
     = [ListObjectsCommand (Some ''satuin''),
        PutObjectCommand (Some ''satuin'') ''dev/wwebjs-auth/work-phone.zip'' smallFile
          ''application/zip'' ''Enabled'' ''gzip'']
   \<and> filter isPut (map fst (sentBy (freshWorld ())
       (snd (snd (save (posixRuntime (oneFile ''work-phone.zip'' bigFile)) (demoStore okClient)
                    demoOptions (freshWorld ())))))) = []
   \<and> fst (save (posixRuntime (oneFile ''work-phone.zip'' bigFile)) (demoStore okClient)
            demoOptions (freshWorld ())) = Inr ()"
proof -
  have small: "length (concat smallFile) \<le> singleUploadLimit"
    by (simp add: smallFile_def singleUploadLimit_def)
  have big: "singleUploadLimit < length (concat bigFile)"
    by (simp add: bigFile_size singleUploadLimit_def)
  have client: "s3Client (demoStore okClient) = Some okClient \<and> neverFails okClient"
    by (simp add: demoStore_def okClient_neverFails)
  have bucket: "bucketName (demoStore okClient) = Some ''satuin''"
    by (simp add: demoStore_def)
  show ?thesis
    using save_strategy [OF demo_valid demo_key demo_file, of smallFile]
      save_strategy [OF demo_valid demo_key demo_file, of bigFile]
      small big client bucket
    by simp
qed

section \<open>save: the parts of a multipart upload\<close>

lemma save_multipart_commands:
  assumes valid: "fst (isValidConfig store opts (w :: 's world))"
    and fl: "fs rt (template (session opts) @ ''.zip'') = Inr chunks"
    and gt: "singleUploadLimit < length (concat chunks)"
    and ok: "fst (save rt store opts w) = Inr ()"
  shows "\<exists>key uid parts.
           map fst (sentBy w (snd (snd (save rt store opts w))))
             = ListObjectsCommand (bucketName store)
                 # CreateMultipartUploadCommand (bucketName store) key ''private'' ''application/zip''
                 # uploadCommands (bucketName store) key uid 1 (partsOf chunks)
                 @ [CompleteMultipartUploadCommand (bucketName store) key uid parts]
           \<and> map PartNumber parts = [1 ..< 1 + length (partsOf chunks)]"
proof -
  let ?w' = "snd (snd (save rt store opts w))"
  let ?b = "bucketName store"
  from valid_client [OF valid] obtain client where c: "s3Client store = Some client" by blast
  have "\<not> falsy (remoteDataPath store)" using valid isValidConfig_True by blast
  then obtain key where k: "remoteKey rt store opts = Inr key"
    using remoteKey_valid [of store rt opts] by blast
  obtain probe s1 where list: "client (clientState w) (ListObjectsCommand ?b) = (probe, s1)"
    by (cases "client (clientState w) (ListObjectsCommand ?b)")
  from save_sent [OF valid c k list fl] obtain uid parts and w2 w3 :: "'s world" where
    s: "sentBy w ?w' = (ListObjectsCommand ?b, probe) # sentBy w2 w3"
    and r: "ran w2 w3
               (if length (concat chunks) \<le> singleUploadLimit
                then [PutObjectCommand ?b key chunks ''application/zip'' ''Enabled'' ''gzip'']
                else CreateMultipartUploadCommand ?b key ''private'' ''application/zip''
                       # uploadCommands ?b key uid 1 (partsOf chunks)
                       @ [CompleteMultipartUploadCommand ?b key uid parts])
               (fst (save rt store opts w))"
    and p: "map PartNumber parts = [1 ..< 1 + length (partsOf chunks)]"
    by (elim exE conjE) (rule that)
  let ?cmds = "CreateMultipartUploadCommand ?b key ''private'' ''application/zip''
                       # uploadCommands ?b key uid 1 (partsOf chunks)
                       @ [CompleteMultipartUploadCommand ?b key uid parts]"
  have r1: "ran w2 w3 ?cmds (Inr () :: jserror + unit)" using r gt ok by simp
  have m: "map fst (sentBy w ?w') = ListObjectsCommand ?b # ?cmds"
    using ran_ok_commands [OF r1] s by simp
  show ?thesis
    by (rule exI [of _ key], rule exI [of _ uid], rule exI [of _ parts]) (rule conjI [OF m p])
qed

lemma save_multipart_parts:
  assumes valid: "fst (isValidConfig store opts (w :: 's world))"
    and fl: "fs rt (template (session opts) @ ''.zip'') = Inr chunks"
    and gt: "singleUploadLimit < length (concat chunks)"
    and ok: "fst (save rt store opts w) = Inr ()"
  shows "partNumbers (map fst (sentBy w (snd (snd (save rt store opts w)))))
           = [1 ..< 1 + length (partsOf chunks)]"
    and "\<exists>ps. completedParts (map fst (sentBy w (snd (snd (save rt store opts w))))) = [ps]
           \<and> map PartNumber ps = [1 ..< 1 + length (partsOf chunks)]"
    and "partBodies (map fst (sentBy w (snd (snd (save rt store opts w))))) = partsOf chunks"
proof -
  from save_multipart_commands [OF valid fl gt ok] obtain key uid parts where
    m: "map fst (sentBy w (snd (snd (save rt store opts w))))
             = ListObjectsCommand (bucketName store)
                 # CreateMultipartUploadCommand (bucketName store) key ''private'' ''application/zip''
                 # uploadCommands (bucketName store) key uid 1 (partsOf chunks)
                 @ [CompleteMultipartUploadCommand (bucketName store) key uid parts]"
    and p: "map PartNumber parts = [1 ..< 1 + length (partsOf chunks)]"
    by (elim exE conjE) (rule that)
  show "partNumbers (map fst (sentBy w (snd (snd (save rt store opts w)))))
           = [1 ..< 1 + length (partsOf chunks)]"
    unfolding m by (simp del: upt_Suc)
  show "partBodies (map fst (sentBy w (snd (snd (save rt store opts w))))) = partsOf chunks"
    unfolding m by simp
  have "completedParts (map fst (sentBy w (snd (snd (save rt store opts w))))) = [parts]"
    unfolding m by simp
  with p show "\<exists>ps. completedParts (map fst (sentBy w (snd (snd (save rt store opts w))))) = [ps]
           \<and> map PartNumber ps = [1 ..< 1 + length (partsOf chunks)]"
    by blast
qed

lemma partsOf_count:
  assumes "chunkedBy hwm chunks" "chunks \<noteq> []" "0 < hwm" "hwm dvd partSize"
  shows "length (partsOf chunks) = (length (concat chunks) + partSize - 1) div partSize"
  using loop_count [OF assms, of "[]"] partSize_pos
  by (cases "loopRest [] chunks = []") (simp_all add: partsOf_def)

lemma chunkedBy_replicate:
  "0 < hwm \<Longrightarrow> chunkedBy hwm (replicate (Suc n) (replicate hwm x))"
  by (induction n) simp_all

lemma bigFile_chunked: "chunkedBy 65536 bigFile"
proof -
  have "(73728 :: nat) = Suc 73727" by simp
  then have "bigFile = replicate (Suc 73727) (replicate 65536 0)"
    by (simp only: bigFile_def)
  then show ?thesis using chunkedBy_replicate [of 65536 73727 0] by simp
qed

lemma bigFile_parts: "length (partsOf bigFile) = 231"
proof -
  have ne: "bigFile \<noteq> []" by (simp add: bigFile_def)
  have d: "(65536 :: nat) dvd partSize" by (simp add: partSize_def)
  show ?thesis
    using partsOf_count [OF bigFile_chunked ne _ d] by (simp add: bigFile_size partSize_def)
qed


lemma demo_client: "s3Client (demoStore okClient) = Some okClient"
  by (simp add: demoStore_def)

lemma bigFile_saved:
  "fst (save (posixRuntime (oneFile ''work-phone.zip'' bigFile)) (demoStore okClient)
          demoOptions (freshWorld ())) = Inr ()"
  by (rule save_neverFails [OF demo_valid demo_client okClient_neverFails demo_file])

lemma bigFile_large: "singleUploadLimit < length (concat bigFile)"
  by (simp add: bigFile_size singleUploadLimit_def)

lemma highWaterMark_pos: "0 < highWaterMark"
  by (simp add: highWaterMark_def)

lemma createReadStream_Nil [simp]: "createReadStream [] = []"
  by (simp add: createReadStream.simps)

lemma createReadStream_nonempty: "bytes \<noteq> [] \<Longrightarrow> createReadStream bytes \<noteq> []"
  by (subst createReadStream.simps) simp

lemma concat_createReadStream: "concat (createReadStream bytes) = bytes"
proof (induction bytes rule: createReadStream.induct)
  case (1 bytes)
  show ?case
  proof (cases "bytes = []")
    case True
    then show ?thesis by simp
  next
    case False
    then have "concat (createReadStream bytes)
                 = take highWaterMark bytes @ concat (createReadStream (drop highWaterMark bytes))"
      by (subst createReadStream.simps) simp
    then show ?thesis using 1 [OF False] by simp
  qed
qed

lemma chunkedBy_createReadStream: "chunkedBy highWaterMark (createReadStream bytes)"
proof (induction bytes rule: createReadStream.induct)
  case (1 bytes)
  show ?case
  proof (cases "bytes = []")
    case True
    then show ?thesis by simp
  next
    case False
    have unfold: "createReadStream bytes
                    = take highWaterMark bytes # createReadStream (drop highWaterMark bytes)"
      using False by (subst createReadStream.simps) simp
    show ?thesis
    proof (cases "drop highWaterMark bytes = []")
      case True
      then have "createReadStream bytes = [take highWaterMark bytes]" using unfold by simp
      then show ?thesis using False highWaterMark_pos by simp
    next
      case rest: False
      then obtain chunk chunks where
        next_chunks: "createReadStream (drop highWaterMark bytes) = chunk # chunks"
        using createReadStream_nonempty [OF rest]
        by (cases "createReadStream (drop highWaterMark bytes)") auto
      have "length (take highWaterMark bytes) = highWaterMark" using rest by simp
      then show ?thesis using unfold next_chunks 1 [OF False] by simp
    qed
  qed
qed


lemma bigArchive_size: "length bigArchive = 4831838208"
  by (simp add: bigArchive_def)

text \<open>
  C1. After a validation that passed, on an archive of more than 4 GiB that
  \<open>fs.createReadStream\<close> delivers, when \<open>save\<close> returns normally: with \<open>n\<close> the size
  of the archive divided by the part size of 20 MiB, rounded up, it has uploaded \<open>n\<close>
  parts, under the part numbers 1 to \<open>n\<close> in this order, without gap or repeat, and the
  part list it gives to the one complete command carries the numbers 1 to \<open>n\<close> in
  ascending order. An archive of 4.5 GiB gives 231 parts.
\<close>

theorem save_part_numbers:
  assumes valid: "fst (isValidConfig store opts w)"
    and fl: "fs rt (template (session opts) @ ''.zip'') = Inr (createReadStream bytes)"
    and gt: "singleUploadLimit < length bytes"
    and ok: "fst (save rt store opts w) = Inr ()"
  shows "length (partBodies (map fst (sentBy w (snd (snd (save rt store opts w))))))
           = (length bytes + partSize - 1) div partSize
       \<and> partNumbers (map fst (sentBy w (snd (snd (save rt store opts w)))))
           = [1 ..< 1 + (length bytes + partSize - 1) div partSize]
       \<and> distinct (partNumbers (map fst (sentBy w (snd (snd (save rt store opts w))))))
       \<and> (\<exists>ps. completedParts (map fst (sentBy w (snd (snd (save rt store opts w))))) = [ps]
             \<and> map PartNumber ps = [1 ..< 1 + (length bytes + partSize - 1) div partSize]
             \<and> sorted (map PartNumber ps))"
proof -
  let ?chunks = "createReadStream bytes"
  have size: "length (concat ?chunks) = length bytes" by (simp add: concat_createReadStream)
  have gt': "singleUploadLimit < length (concat ?chunks)" using gt size by simp
  have "bytes \<noteq> []" using gt by auto
  then have ne: "?chunks \<noteq> []" by (rule createReadStream_nonempty)
  have d: "highWaterMark dvd partSize" by (simp add: highWaterMark_def partSize_def)
  from partsOf_count [OF chunkedBy_createReadStream ne highWaterMark_pos d]
  have n: "length (partsOf ?chunks) = (length bytes + partSize - 1) div partSize"
    using size by simp
  note parts = save_multipart_parts [OF valid fl gt' ok]
  have numbers: "partNumbers (map fst (sentBy w (snd (snd (save rt store opts w)))))
           = [1 ..< 1 + (length bytes + partSize - 1) div partSize]"
    using parts(1) unfolding n .
  from parts(2) obtain ps where
    ps: "completedParts (map fst (sentBy w (snd (snd (save rt store opts w))))) = [ps]"
      "map PartNumber ps = [1 ..< 1 + (length bytes + partSize - 1) div partSize]"
    unfolding n by blast
  have "sorted (map PartNumber ps)" unfolding ps(2) by (rule sorted_upt)
  with ps have complete: "\<exists>ps. completedParts (map fst (sentBy w (snd (snd (save rt store opts w))))) = [ps]
             \<and> map PartNumber ps = [1 ..< 1 + (length bytes + partSize - 1) div partSize]
             \<and> sorted (map PartNumber ps)"
    by blast
  have count: "length (partBodies (map fst (sentBy w (snd (snd (save rt store opts w))))))
           = (length bytes + partSize - 1) div partSize"
    using parts(3) n by simp
  have dist: "distinct (partNumbers (map fst (sentBy w (snd (snd (save rt store opts w))))))"
    unfolding numbers by (rule distinct_upt)
  show ?thesis by (rule conjI [OF count conjI [OF numbers conjI [OF dist complete]]])
qed

theorem save_part_numbers_witness:
  "length (partBodies (map fst (sentBy (freshWorld ())
      (snd (snd (save (posixRuntime (oneFile ''work-phone.zip'' (createReadStream bigArchive)))
                   (demoStore okClient) demoOptions (freshWorld ()))))))) = 231
   \<and> partNumbers (map fst (sentBy (freshWorld ())
      (snd (snd (save (posixRuntime (oneFile ''work-phone.zip'' (createReadStream bigArchive)))
                   (demoStore okClient) demoOptions (freshWorld ())))))) = [1 ..< 1 + 231]"
proof -
  have n: "(length bigArchive + partSize - 1) div partSize = 231"
    by (simp add: bigArchive_size partSize_def)
  have large: "singleUploadLimit < length bigArchive"
    by (simp add: bigArchive_size singleUploadLimit_def)
  have saved: "fst (save (posixRuntime (oneFile ''work-phone.zip'' (createReadStream bigArchive)))
                  (demoStore okClient) demoOptions (freshWorld ())) = Inr ()"
    by (rule save_neverFails [OF demo_valid demo_client okClient_neverFails demo_file])
  note t = save_part_numbers [OF demo_valid demo_file large saved]
  from t [unfolded n] show ?thesis by (intro conjI) (erule conjunct1, erule conjunct2 [THEN conjunct1])
qed

theorem save_230_parts_counterexample:
  "length (partNumbers (map fst (sentBy (freshWorld ())
      (snd (snd (save (posixRuntime (oneFile ''work-phone.zip'' bigFile)) (demoStore okClient)
                   demoOptions (freshWorld ()))))))) = 231
   \<and> length (partNumbers (map fst (sentBy (freshWorld ())
      (snd (snd (save (posixRuntime (oneFile ''work-phone.zip'' bigFile)) (demoStore okClient)
                   demoOptions (freshWorld ()))))))) \<noteq> 230"
proof -
  have "partNumbers (map fst (sentBy (freshWorld ())
      (snd (snd (save (posixRuntime (oneFile ''work-phone.zip'' bigFile)) (demoStore okClient)
                   demoOptions (freshWorld ()))))))
        = [1 ..< 1 + length (partsOf bigFile)]"
    by (rule save_multipart_parts(1) [OF demo_valid demo_file bigFile_large bigFile_saved])
  then have "length (partNumbers (map fst (sentBy (freshWorld ())
      (snd (snd (save (posixRuntime (oneFile ''work-phone.zip'' bigFile)) (demoStore okClient)
                   demoOptions (freshWorld ()))))))) = 231"
    by (simp only: length_upt bigFile_parts)
  then show ?thesis by simp
qed

section \<open>save: errors\<close>

lemma outcomes_error:
  assumes "outs = map Inr resps @ (case r of Inl e \<Rightarrow> [Inl e] | Inr v \<Rightarrow> [])"
    and "j < length outs" and "outs ! j = Inl e"
  shows "r = Inl e \<and> Suc j = length outs"
proof (cases "j < length resps")
  case True
  then have "outs ! j = Inr (resps ! j)" using assms(1) by (simp add: nth_append)
  then show ?thesis using assms(3) by simp
next
  case False
  show ?thesis
  proof (cases r)
    case (Inl e')
    then have "outs = map Inr resps @ [Inl e']" using assms(1) by simp
    moreover from this have "j = length resps" using False assms(2) by simp
    ultimately show ?thesis using assms(3) Inl by (simp add: nth_append)
  next
    case (Inr v)
    then show ?thesis using assms(1,2) False by simp
  qed
qed

lemma no_abort_in_transfer:
  "filter isAbort (take n (if single then [PutObjectCommand b key body ct acc enc]
                           else CreateMultipartUploadCommand b key acl ct'
                                  # uploadCommands b key uid pn bodies
                                  @ [CompleteMultipartUploadCommand b key uid parts])) = []"
proof -
  let ?cmds = "if single then [PutObjectCommand b key body ct acc enc]
               else CreateMultipartUploadCommand b key acl ct'
                      # uploadCommands b key uid pn bodies
                      @ [CompleteMultipartUploadCommand b key uid parts]"
  have u: "\<not> isAbort c" if "c \<in> set (uploadCommands b key uid pn bodies)" for c
    using uploadCommands_kind [OF that] by simp
  have "\<not> isAbort c" if "c \<in> set ?cmds" for c
    using that u by (cases single) auto
  moreover have "set (take n ?cmds) \<subseteq> set ?cmds" by (rule set_take_subset)
  ultimately have "\<forall>c \<in> set (take n ?cmds). \<not> isAbort c" by blast
  then show ?thesis by (simp only: filter_empty_conv)
qed

lemma save_invalid_sent:
  assumes "\<not> fst (isValidConfig store opts w)"
  shows "filter isAbort (map fst (sentBy w (snd (snd (save rt store opts w))))) = []"
proof -
  let ?w1 = "debugLog store ''[METHOD: save] Triggered.'' w"
  have inv: "\<not> fst (isValidConfig store opts ?w1)"
    using assms by (simp add: isValidConfig_debugLog_fst)
  then have w: "snd (snd (save rt store opts w)) = snd (isValidConfig store opts ?w1)"
    by (cases "isValidConfig store opts ?w1") (simp add: save_def)
  have "filter isAbort (map fst (sentBy w (snd (isValidConfig store opts ?w1)))) = []"
    by (auto simp: isValidConfig_def send_def sentBy_def debugLog_def consoleLog_def
          consoleLogError_def split: option.splits prod.splits sum.splits)
  then show ?thesis using w by simp
qed


lemma save_valid_cases:
  assumes valid: "fst (isValidConfig store opts (w :: 's world))"
  shows "(\<exists>e probe. fs rt (template (session opts) @ ''.zip'') = Inl e
            \<and> fst (save rt store opts w) = Inl e
            \<and> sentBy w (snd (snd (save rt store opts w)))
                 = [(ListObjectsCommand (bucketName store), probe)])
       \<or> (\<exists>chunks probe resps sent.
            fs rt (template (session opts) @ ''.zip'') = Inr chunks
            \<and> sentBy w (snd (snd (save rt store opts w)))
                 = (ListObjectsCommand (bucketName store), probe) # sent
            \<and> filter isAbort (map fst sent) = []
            \<and> map snd sent
                 = map Inr resps @ (case fst (save rt store opts w) of Inl e \<Rightarrow> [Inl e] | Inr v \<Rightarrow> []))"
proof -
  let ?w' = "snd (snd (save rt store opts w))"
  let ?b = "bucketName store"
  from valid_client [OF valid] obtain client where c: "s3Client store = Some client" by blast
  have "\<not> falsy (remoteDataPath store)" using valid isValidConfig_True by blast
  then obtain key where k: "remoteKey rt store opts = Inr key"
    using remoteKey_valid [of store rt opts] by blast
  obtain probe s1 where list: "client (clientState w) (ListObjectsCommand ?b) = (probe, s1)"
    by (cases "client (clientState w) (ListObjectsCommand ?b)")
  show ?thesis
  proof (cases "fs rt (template (session opts) @ ''.zip'')")
    case (Inl e)
    from save_stat_failed [OF valid c k list Inl] Inl show ?thesis by blast
  next
    case (Inr chunks)
    from save_sent [OF valid c k list Inr] obtain uid parts and w2 w3 :: "'s world" where
      s: "sentBy w ?w' = (ListObjectsCommand ?b, probe) # sentBy w2 w3"
      and r: "ran w2 w3
               (if length (concat chunks) \<le> singleUploadLimit
                then [PutObjectCommand ?b key chunks ''application/zip'' ''Enabled'' ''gzip'']
                else CreateMultipartUploadCommand ?b key ''private'' ''application/zip''
                       # uploadCommands ?b key uid 1 (partsOf chunks)
                       @ [CompleteMultipartUploadCommand ?b key uid parts])
               (fst (save rt store opts w))"
      by (elim exE conjE) (rule that)
    have a: "filter isAbort (map fst (sentBy w2 w3)) = []"
      using ran_prefix [OF r] no_abort_in_transfer by metis
    from ran_outcomes [OF r] obtain resps where
      o: "map snd (sentBy w2 w3)
            = map Inr resps @ (case fst (save rt store opts w) of Inl e \<Rightarrow> [Inl e] | Inr v \<Rightarrow> [])"
      by blast
    have "\<exists>chunks probe resps sent.
            fs rt (template (session opts) @ ''.zip'') = Inr chunks
            \<and> sentBy w ?w' = (ListObjectsCommand ?b, probe) # sent
            \<and> filter isAbort (map fst sent) = []
            \<and> map snd sent
                 = map Inr resps @ (case fst (save rt store opts w) of Inl e \<Rightarrow> [Inl e] | Inr v \<Rightarrow> [])"
      by (rule exI [of _ chunks], rule exI [of _ probe], rule exI [of _ resps],
          rule exI [of _ "sentBy w2 w3"]) (rule conjI [OF Inr conjI [OF s conjI [OF a o]]])
    then show ?thesis by (rule disjI2)
  qed
qed


text \<open>
  C7. \<open>save\<close> never sends an abort command. After a validation that passed: an error
  thrown by \<open>statSync\<close> is the error \<open>save\<close> throws, with nothing sent after the list
  probe; an error answered to any command after the list probe (the put, the create, a
  part upload or the complete) is the error \<open>save\<close> throws, and that command is the last
  one sent; and whenever \<open>save\<close> throws, the error is the one \<open>statSync\<close> threw or the
  one answered to the last command sent.
\<close>

theorem save_rethrows:
  "filter isAbort (map fst (sentBy w (snd (snd (save rt store opts w))))) = []
   \<and> (fst (isValidConfig store opts (w :: 's world)) \<longrightarrow>
        (\<forall>e. fs rt (template (session opts) @ ''.zip'') = Inl e \<longrightarrow>
               fst (save rt store opts w) = Inl e
               \<and> length (sentBy w (snd (snd (save rt store opts w)))) = 1)
      \<and> (\<forall>i e. 0 < i \<and> i < length (sentBy w (snd (snd (save rt store opts w))))
                 \<and> snd (sentBy w (snd (snd (save rt store opts w))) ! i) = Inl e \<longrightarrow>
               fst (save rt store opts w) = Inl e
               \<and> Suc i = length (sentBy w (snd (snd (save rt store opts w)))))
      \<and> (\<forall>e. fst (save rt store opts w) = Inl e \<longrightarrow>
               fs rt (template (session opts) @ ''.zip'') = Inl e
               \<or> (1 < length (sentBy w (snd (snd (save rt store opts w))))
                  \<and> snd (last (sentBy w (snd (snd (save rt store opts w))))) = Inl e)))"
proof -
  let ?S = "sentBy w (snd (snd (save rt store opts w)))"
  let ?r = "fst (save rt store opts w)"
  let ?stat = "fs rt (template (session opts) @ ''.zip'')"
  have abort: "filter isAbort (map fst ?S) = []"
  proof (cases "fst (isValidConfig store opts w)")
    case False
    then show ?thesis by (rule save_invalid_sent)
  next
    case True
    from save_valid_cases [OF True, of rt] show ?thesis by auto
  qed
  have stat: "?r = Inl e \<and> length ?S = 1"
    if valid: "fst (isValidConfig store opts w)" and f: "?stat = Inl e" for e
    using save_valid_cases [OF valid, of rt] f by auto
  have step: "?r = Inl e \<and> Suc i = length ?S"
    if valid: "fst (isValidConfig store opts w)" and i: "0 < i" "i < length ?S"
      and e: "snd (?S ! i) = Inl e" for i e
  proof -
    from save_valid_cases [OF valid, of rt] i obtain probe resps sent where
      s: "?S = (ListObjectsCommand (bucketName store), probe) # sent"
      and o: "map snd sent = map Inr resps @ (case ?r of Inl e \<Rightarrow> [Inl e] | Inr v \<Rightarrow> [])"
      by auto
    obtain j where j: "i = Suc j" using i(1) by (cases i) auto
    have jl: "j < length (map snd sent)" using i(2) s j by simp
    have "map snd sent ! j = Inl e" using e s j jl by simp
    from outcomes_error [OF o jl this] show ?thesis using s j by simp
  qed
  have thrown: "?stat = Inl e \<or> (1 < length ?S \<and> snd (last ?S) = Inl e)"
    if valid: "fst (isValidConfig store opts w)" and r: "?r = Inl e" for e
  proof -
    from save_valid_cases [OF valid, of rt]
    consider (stat) e' where "?stat = Inl e'" "?r = Inl e'"
      | (sent) probe resps sent where
          "?S = (ListObjectsCommand (bucketName store), probe) # sent"
          "map snd sent = map Inr resps @ (case ?r of Inl e \<Rightarrow> [Inl e] | Inr v \<Rightarrow> [])"
      by blast
    then show ?thesis
    proof cases
      case stat
      then show ?thesis using r by simp
    next
      case sent
      then have o: "map snd sent = map Inr resps @ [Inl e]" using r by simp
      then have ne: "sent \<noteq> []" by auto
      have "snd (last sent) = last (map snd sent)" using ne by (simp add: last_map)
      then have "snd (last sent) = Inl e" using o by simp
      then show ?thesis using sent(1) ne by simp
    qed
  qed
  show ?thesis
    apply (intro conjI impI allI)
          apply (rule abort)
         apply (erule (1) stat [THEN conjunct1])
        apply (erule (1) stat [THEN conjunct2])
       apply (elim conjE, erule (3) step [THEN conjunct1])
      apply (elim conjE, erule (3) step [THEN conjunct2])
     apply (erule (1) thrown)
    done
qed


lemma demo_scripted_valid:
  "fst (isValidConfig (demoStore scriptedClient) demoOptions (freshWorld []))"
  "fst (isValidConfig (demoStore scriptedClient) demoOptions
          (freshWorld [Inr okResponse, Inl accessDenied]))"
  by (simp_all add: demo_simps)

lemma demo_put_rejected:
  "sentBy (freshWorld [Inr okResponse, Inl accessDenied])
     (snd (snd (save (posixRuntime (oneFile ''work-phone.zip'' smallFile)) (demoStore scriptedClient)
                  demoOptions (freshWorld [Inr okResponse, Inl accessDenied]))))
     = [(ListObjectsCommand (Some ''satuin''), Inr okResponse),
        (PutObjectCommand (Some ''satuin'') ''dev/wwebjs-auth/work-phone.zip'' smallFile
           ''application/zip'' ''Enabled'' ''gzip'', Inl accessDenied)]"
  by (simp add: save_def transfer_def debugLog_def consoleLog_def oneFile_def smallFile_def
        singleUploadLimit_def sentBy_def demo_simps)

theorem save_rethrows_witness:
  "fst (save (posixRuntime noFiles) (demoStore scriptedClient) demoOptions (freshWorld []))
     = Inl (enoent ''work-phone.zip'')
   \<and> fst (save (posixRuntime (oneFile ''work-phone.zip'' smallFile)) (demoStore scriptedClient)
            demoOptions (freshWorld [Inr okResponse, Inl accessDenied])) = Inl accessDenied
   \<and> filter isAbort (map fst (sentBy (freshWorld [Inr okResponse, Inl accessDenied])
         (snd (snd (save (posixRuntime (oneFile ''work-phone.zip'' smallFile))
                      (demoStore scriptedClient) demoOptions
                      (freshWorld [Inr okResponse, Inl accessDenied])))))) = []"
proof -
  have stat: "fs (posixRuntime noFiles) (template (session demoOptions) @ ''.zip'')
                = Inl (enoent ''work-phone.zip'')"
    by (simp add: posixRuntime_def noFiles_def demoOptions_def)
  note t1 = save_rethrows [of "freshWorld []" "posixRuntime noFiles" "demoStore scriptedClient"
      demoOptions]
  have a: "fst (save (posixRuntime noFiles) (demoStore scriptedClient) demoOptions (freshWorld []))
     = Inl (enoent ''work-phone.zip'')"
    using t1 [THEN conjunct2, THEN mp, OF demo_scripted_valid(1), THEN conjunct1, THEN spec,
        of "enoent ''work-phone.zip''"] stat
    by simp
  note t2 = save_rethrows [of "freshWorld [Inr okResponse, Inl accessDenied]"
        "posixRuntime (oneFile ''work-phone.zip'' smallFile)" "demoStore scriptedClient" demoOptions]
  have b: "fst (save (posixRuntime (oneFile ''work-phone.zip'' smallFile)) (demoStore scriptedClient)
            demoOptions (freshWorld [Inr okResponse, Inl accessDenied])) = Inl accessDenied"
    using t2 [THEN conjunct2, THEN mp, OF demo_scripted_valid(2), THEN conjunct2, THEN conjunct1,
        THEN spec, THEN spec, of 1 accessDenied]
    by (simp add: demo_put_rejected)
  have c: "filter isAbort (map fst (sentBy (freshWorld [Inr okResponse, Inl accessDenied])
         (snd (snd (save (posixRuntime (oneFile ''work-phone.zip'' smallFile))
                      (demoStore scriptedClient) demoOptions
                      (freshWorld [Inr okResponse, Inl accessDenied])))))) = []"
    by (rule t2 [THEN conjunct1])
  from a b c show ?thesis by simp
qed

section \<open>save: the archive it reads\<close>

lemma isValidConfig_session:
  "session opts' = session opts \<Longrightarrow> isValidConfig store opts' w = isValidConfig store opts w"
  by (simp add: isValidConfig_def)

lemma remoteKey_session:
  "session opts' = session opts \<Longrightarrow> remoteKey rt store opts' = remoteKey rt store opts"
  by (simp add: remoteKey_def split: option.splits)

lemma transfer_session:
  "session opts' = session opts \<Longrightarrow> transfer rt store opts' key w = transfer rt store opts key w"
  by (simp add: transfer_def)

lemma transfer_runtime:
  "fs rt' (template (session opts) @ ''.zip'') = fs rt (template (session opts) @ ''.zip'') \<Longrightarrow>
     transfer rt' store opts key w = transfer rt store opts key w"
  by (simp add: transfer_def)

lemma remoteKey_runtime:
  "pathJoin rt' = pathJoin rt \<Longrightarrow> remoteKey rt' store opts = remoteKey rt store opts"
  by (simp add: remoteKey_def split: option.splits)

lemma save_ignores_path:
  "save rt store (opts\<lparr>path := p\<rparr>) w
     = (fst (save rt store opts w), (fst (snd (save rt store opts w)))\<lparr>path := p\<rparr>,
        snd (snd (save rt store opts w)))"
proof -
  let ?w1 = "debugLog store ''[METHOD: save] Triggered.'' w"
  obtain valid w2 where v: "isValidConfig store opts ?w1 = (valid, w2)"
    by (cases "isValidConfig store opts ?w1")
  then have v': "isValidConfig store (opts\<lparr>path := p\<rparr>) ?w1 = (valid, w2)"
    using isValidConfig_session [of "opts\<lparr>path := p\<rparr>" opts store ?w1] by simp
  have k: "remoteKey rt store (opts\<lparr>path := p\<rparr>) = remoteKey rt store opts"
    using remoteKey_session [of "opts\<lparr>path := p\<rparr>" opts rt store] by simp
  show ?thesis
  proof (cases valid)
    case False
    then show ?thesis using v v' by (simp add: save_def)
  next
    case True
    show ?thesis
    proof (cases "remoteKey rt store opts")
      case (Inl thrown)
      then show ?thesis using v v' k True by (simp add: save_def)
    next
      case (Inr key)
      have t: "transfer rt store (opts\<lparr>path := p, remoteFilePath := Some key\<rparr>) key w2
                 = transfer rt store (opts\<lparr>remoteFilePath := Some key\<rparr>) key w2"
        using transfer_session [of "opts\<lparr>path := p, remoteFilePath := Some key\<rparr>"
            "opts\<lparr>remoteFilePath := Some key\<rparr>" rt store key w2] by simp
      obtain r w3 where r: "transfer rt store (opts\<lparr>remoteFilePath := Some key\<rparr>) key w2 = (r, w3)"
        by (cases "transfer rt store (opts\<lparr>remoteFilePath := Some key\<rparr>) key w2")
      show ?thesis using v v' k True Inr t r by (cases r) (simp_all add: save_def)
    qed
  qed
qed

lemma save_runtime:
  assumes "pathJoin rt' = pathJoin rt"
    and "fs rt' (template (session opts) @ ''.zip'') = fs rt (template (session opts) @ ''.zip'')"
  shows "save rt' store opts w = save rt store opts w"
proof -
  have k: "remoteKey rt' store opts = remoteKey rt store opts"
    using assms(1) by (rule remoteKey_runtime)
  have t: "transfer rt' store (opts\<lparr>remoteFilePath := Some key\<rparr>) key w2
             = transfer rt store (opts\<lparr>remoteFilePath := Some key\<rparr>) key w2" for key w2
    using assms(2) transfer_runtime [of rt' "opts\<lparr>remoteFilePath := Some key\<rparr>" rt store key w2]
    by simp
  let ?w1 = "debugLog store ''[METHOD: save] Triggered.'' w"
  obtain valid w2 where v: "isValidConfig store opts ?w1 = (valid, w2)"
    by (cases "isValidConfig store opts ?w1")
  show ?thesis
  proof (cases valid)
    case False
    then show ?thesis using v by (simp add: save_def)
  next
    case True
    show ?thesis
    proof (cases "remoteKey rt store opts")
      case (Inl thrown)
      then show ?thesis using v k True by (simp add: save_def)
    next
      case (Inr key)
      then show ?thesis using v k True t [of key w2] by (simp add: save_def Let_def)
    qed
  qed
qed

lemma putBodies_uploadCommands [simp]: "putBodies (uploadCommands b key uid n bodies) = []"
  by (induction bodies arbitrary: n) auto

lemma concat_partsOf: "concat (partsOf chunks) = concat chunks"
proof (cases "loopRest [] chunks = []")
  case True
  then show ?thesis using loop_bytes [of "[]" chunks] by (simp add: partsOf_def)
next
  case False
  then show ?thesis using loop_bytes [of "[]" chunks] by (simp add: partsOf_def)
qed

lemma save_single_commands:
  assumes valid: "fst (isValidConfig store opts (w :: 's world))"
    and k: "remoteKey rt store opts = Inr key"
    and fl: "fs rt (template (session opts) @ ''.zip'') = Inr chunks"
    and le: "length (concat chunks) \<le> singleUploadLimit"
  shows "map fst (sentBy w (snd (snd (save rt store opts w))))
           = [ListObjectsCommand (bucketName store),
              PutObjectCommand (bucketName store) key chunks ''application/zip'' ''Enabled'' ''gzip'']"
proof -
  let ?w' = "snd (snd (save rt store opts w))"
  let ?r = "fst (save rt store opts w)"
  let ?b = "bucketName store"
  let ?put = "PutObjectCommand ?b key chunks ''application/zip'' ''Enabled'' ''gzip''"
  from valid_client [OF valid] obtain client where c: "s3Client store = Some client" by blast
  obtain probe s1 where list: "client (clientState w) (ListObjectsCommand ?b) = (probe, s1)"
    by (cases "client (clientState w) (ListObjectsCommand ?b)")
  from save_sent [OF valid c k list fl] obtain uid parts and w2 w3 :: "'s world" where
    s: "sentBy w ?w' = (ListObjectsCommand ?b, probe) # sentBy w2 w3"
    and r: "ran w2 w3
               (if length (concat chunks) \<le> singleUploadLimit
                then [?put]
                else CreateMultipartUploadCommand ?b key ''private'' ''application/zip''
                       # uploadCommands ?b key uid 1 (partsOf chunks)
                       @ [CompleteMultipartUploadCommand ?b key uid parts]) ?r"
    by (elim exE conjE) (rule that)
  have r1: "ran w2 w3 [?put] ?r" using r le by simp
  from ran_sentBy [OF r1] obtain resps where
    z: "sentBy w2 w3 = zip [?put] (map Inr resps @ (case ?r of Inl e \<Rightarrow> [Inl e] | Inr v \<Rightarrow> []))"
    and l: "(case ?r of Inl e \<Rightarrow> length resps < length [?put] | Inr v \<Rightarrow> length resps = length [?put])"
    by blast
  have "map fst (sentBy w2 w3) = [?put]"
  proof (cases ?r)
    case (Inl e)
    then have "resps = []" using l by simp
    then show ?thesis using z Inl by simp
  next
    case (Inr v)
    then show ?thesis using ran_ok_commands [of w2 w3 "[?put]" v] r1 by simp
  qed
  then show ?thesis using s by simp
qed


text \<open>
  C9. \<open>save\<close> reads the archive under the name made of the session identifier and
  \<open>.zip\<close> and no other file: the \<open>path\<close> member of its options changes nothing of
  what it returns, sends or logs; two runtimes that agree on \<open>path.join\<close> and on that
  one file give the same run; and after a validation that passed, the body of the one
  put is the stream of that file when it has at most 4 GiB, and otherwise, when \<open>save\<close>
  returns normally, the bodies of the parts, in order, make up the bytes of that file.
\<close>

theorem save_reads_session_archive:
  "save rt store (opts\<lparr>path := p\<rparr>) w
     = (fst (save rt store opts w), (fst (snd (save rt store opts w)))\<lparr>path := p\<rparr>,
        snd (snd (save rt store opts w)))
   \<and> (pathJoin rt' = pathJoin rt
        \<and> fs rt' (template (session opts) @ ''.zip'') = fs rt (template (session opts) @ ''.zip'') \<longrightarrow>
        save rt' store opts w = save rt store opts w)
   \<and> (fst (isValidConfig store opts w)
        \<and> fs rt (template (session opts) @ ''.zip'') = Inr chunks \<longrightarrow>
        (length (concat chunks) \<le> singleUploadLimit \<longrightarrow>
           putBodies (map fst (sentBy w (snd (snd (save rt store opts w))))) = [chunks]
           \<and> partBodies (map fst (sentBy w (snd (snd (save rt store opts w))))) = [])
      \<and> (singleUploadLimit < length (concat chunks) \<and> fst (save rt store opts w) = Inr () \<longrightarrow>
           putBodies (map fst (sentBy w (snd (snd (save rt store opts w))))) = []
           \<and> concat (partBodies (map fst (sentBy w (snd (snd (save rt store opts w))))))
               = concat chunks))"
proof -
  let ?cmds = "map fst (sentBy w (snd (snd (save rt store opts w))))"
  have a: "save rt store (opts\<lparr>path := p\<rparr>) w
     = (fst (save rt store opts w), (fst (snd (save rt store opts w)))\<lparr>path := p\<rparr>,
        snd (snd (save rt store opts w)))"
    by (rule save_ignores_path)
  have b: "pathJoin rt' = pathJoin rt
        \<and> fs rt' (template (session opts) @ ''.zip'') = fs rt (template (session opts) @ ''.zip'') \<longrightarrow>
        save rt' store opts w = save rt store opts w"
    using save_runtime by blast
  have small: "putBodies ?cmds = [chunks] \<and> partBodies ?cmds = []"
    if valid: "fst (isValidConfig store opts w)"
      and fl: "fs rt (template (session opts) @ ''.zip'') = Inr chunks"
      and le: "length (concat chunks) \<le> singleUploadLimit"
  proof -
    have "\<not> falsy (remoteDataPath store)" using valid isValidConfig_True by blast
    then obtain key where k: "remoteKey rt store opts = Inr key"
      using remoteKey_valid [of store rt opts] by blast
    show ?thesis unfolding save_single_commands [OF valid k fl le] by simp
  qed
  have big: "putBodies ?cmds = [] \<and> concat (partBodies ?cmds) = concat chunks"
    if valid: "fst (isValidConfig store opts w)"
      and fl: "fs rt (template (session opts) @ ''.zip'') = Inr chunks"
      and gt: "singleUploadLimit < length (concat chunks)"
      and ok: "fst (save rt store opts w) = Inr ()"
  proof -
    from save_multipart_commands [OF valid fl gt ok] obtain key uid parts where
      m: "?cmds = ListObjectsCommand (bucketName store)
                 # CreateMultipartUploadCommand (bucketName store) key ''private'' ''application/zip''
                 # uploadCommands (bucketName store) key uid 1 (partsOf chunks)
                 @ [CompleteMultipartUploadCommand (bucketName store) key uid parts]"
      by (elim exE conjE) (rule that)
    show ?thesis unfolding m by (simp add: concat_partsOf)
  qed
  show ?thesis
    apply (intro conjI impI)
        apply (rule a)
       apply (elim conjE, erule (1) save_runtime)
      apply (elim conjE, erule (2) small [THEN conjunct1])
     apply (elim conjE, erule (2) small [THEN conjunct2])
    apply (elim conjE, erule (3) big [THEN conjunct1])
    apply (elim conjE, erule (3) big [THEN conjunct2])
    done
qed

theorem save_reads_session_archive_witness:
  "save (posixRuntime (oneFile ''work-phone.zip'' smallFile)) (demoStore okClient)
       (demoOptions\<lparr>path := Some ''elsewhere.zip''\<rparr>) (freshWorld ())
     = (fst (save (posixRuntime (oneFile ''work-phone.zip'' smallFile)) (demoStore okClient)
               demoOptions (freshWorld ())),
        (fst (snd (save (posixRuntime (oneFile ''work-phone.zip'' smallFile)) (demoStore okClient)
               demoOptions (freshWorld ()))))\<lparr>path := Some ''elsewhere.zip''\<rparr>,
        snd (snd (save (posixRuntime (oneFile ''work-phone.zip'' smallFile)) (demoStore okClient)
               demoOptions (freshWorld ()))))
   \<and> putBodies (map fst (sentBy (freshWorld ())
        (snd (snd (save (posixRuntime (oneFile ''work-phone.zip'' smallFile)) (demoStore okClient)
               demoOptions (freshWorld ())))))) = [smallFile]
   \<and> concat (partBodies (map fst (sentBy (freshWorld ())
        (snd (snd (save (posixRuntime (oneFile ''work-phone.zip'' bigFile)) (demoStore okClient)
               demoOptions (freshWorld ()))))))) = concat bigFile"
proof -
  have small: "length (concat smallFile) \<le> singleUploadLimit"
    by (simp add: smallFile_def singleUploadLimit_def)
  note t1 = save_reads_session_archive [of "posixRuntime (oneFile ''work-phone.zip'' smallFile)"
      "demoStore okClient" "Some ''elsewhere.zip''" demoOptions "freshWorld ()" _ smallFile]
  note t2 = save_reads_session_archive [of "posixRuntime (oneFile ''work-phone.zip'' bigFile)"
      "demoStore okClient" "Some ''elsewhere.zip''" demoOptions "freshWorld ()" _ bigFile]
  have a: "save (posixRuntime (oneFile ''work-phone.zip'' smallFile)) (demoStore okClient)
       (demoOptions\<lparr>path := Some ''elsewhere.zip''\<rparr>) (freshWorld ())
     = (fst (save (posixRuntime (oneFile ''work-phone.zip'' smallFile)) (demoStore okClient)
               demoOptions (freshWorld ())),
        (fst (snd (save (posixRuntime (oneFile ''work-phone.zip'' smallFile)) (demoStore okClient)
               demoOptions (freshWorld ()))))\<lparr>path := Some ''elsewhere.zip''\<rparr>,
        snd (snd (save (posixRuntime (oneFile ''work-phone.zip'' smallFile)) (demoStore okClient)
               demoOptions (freshWorld ()))))"
    by (rule t1 [THEN conjunct1])
  have b: "putBodies (map fst (sentBy (freshWorld ())
        (snd (snd (save (posixRuntime (oneFile ''work-phone.zip'' smallFile)) (demoStore okClient)
               demoOptions (freshWorld ())))))) = [smallFile]"
    using t1 [THEN conjunct2, THEN conjunct2] demo_valid demo_file [of smallFile] small by simp
  have c: "concat (partBodies (map fst (sentBy (freshWorld ())
        (snd (snd (save (posixRuntime (oneFile ''work-phone.zip'' bigFile)) (demoStore okClient)
               demoOptions (freshWorld ()))))))) = concat bigFile"
    using t2 [THEN conjunct2, THEN conjunct2] demo_valid demo_file [of bigFile] bigFile_large
      bigFile_saved by simp
  from a b c show ?thesis by (intro conjI)
qed

section \<open>The sizes of the parts\<close>

lemma partBodies_take_uploadCommands:
  "partBodies (take k (uploadCommands b key uid n bodies)) = take k bodies"
proof (induction bodies arbitrary: n k)
  case Nil
  then show ?case by simp
next
  case (Cons body bodies)
  then show ?case by (cases k) simp_all
qed

lemma partBodies_take_multipart:
  "partBodies (take k (CreateMultipartUploadCommand b key acl ct
                         # uploadCommands b key uid n bodies
                         @ [CompleteMultipartUploadCommand b key uid parts]))
     = take (k - 1) bodies"
proof (cases k)
  case 0
  then show ?thesis by simp
next
  case (Suc j)
  have "partBodies (take (j - length bodies) [CompleteMultipartUploadCommand b key uid parts]) = []"
    by (cases "j - length bodies") simp_all
  then show ?thesis using Suc by (simp add: partBodies_take_uploadCommands)
qed

lemma in_set_butlast_take:
  assumes "x \<in> set (butlast (take j zs))"
  shows "x \<in> set (butlast zs)"
proof (cases "j < length zs")
  case True
  then have "butlast (take j zs) = take (j - 1) zs" by (simp add: butlast_take)
  also have "\<dots> = take (j - 1) (butlast zs)" using True by (simp add: take_butlast)
  finally show ?thesis using assms by (auto dest: in_set_takeD)
next
  case False
  then show ?thesis using assms by simp
qed

lemma in_butlast_partsOf:
  assumes "body \<in> set (butlast (partsOf chunks))"
  shows "body \<in> set (loopParts [] chunks)"
proof (cases "length (loopRest [] chunks) > 0")
  case True
  then have "butlast (partsOf chunks) = loopParts [] chunks"
    by (simp add: partsOf_def butlast_append)
  then show ?thesis using assms by simp
next
  case False
  then have "partsOf chunks = loopParts [] chunks" by (simp add: partsOf_def)
  then show ?thesis using assms by (auto dest: in_set_butlastD)
qed

lemma partsOf_less:
  assumes "\<forall>chunk \<in> set chunks. length chunk \<le> m" and "body \<in> set (partsOf chunks)"
  shows "length body < partSize + m"
proof (cases "body \<in> set (loopParts [] chunks)")
  case True
  then show ?thesis using loopParts_less [of "[]" chunks m body] assms(1) partSize_pos by simp
next
  case False
  then have "body = concat (loopRest [] chunks)"
    using assms(2) by (auto simp: partsOf_def split: if_splits)
  then show ?thesis using loopRest_less [of "[]" chunks] partSize_pos by simp
qed


lemma streamLoop_bodies:
  assumes c: "s3Client store = Some client"
    and run: "streamLoop store key uid chunks (pn, parts, buf) w = (r, w')"
    and body: "body \<in> set (partBodies (map fst (sentBy w w')))"
  shows "body \<in> set (loopParts buf chunks)"
proof -
  note r = streamLoop_ran(1) [OF c run]
  have "partBodies (map fst (sentBy w w')) = take (length (sentBy w w')) (loopParts buf chunks)"
    unfolding ran_prefix [OF r] by (rule partBodies_take_uploadCommands)
  then show ?thesis using body by (auto dest: in_set_takeD)
qed

lemma save_multipart_bodies:
  assumes valid: "fst (isValidConfig store opts (w :: 's world))"
    and fl: "fs rt (template (session opts) @ ''.zip'') = Inr chunks"
    and gt: "singleUploadLimit < length (concat chunks)"
  shows "\<exists>k. partBodies (map fst (sentBy w (snd (snd (save rt store opts w)))))
               = take k (partsOf chunks)"
proof -
  let ?w' = "snd (snd (save rt store opts w))"
  let ?b = "bucketName store"
  from valid_client [OF valid] obtain client where c: "s3Client store = Some client" by blast
  have "\<not> falsy (remoteDataPath store)" using valid isValidConfig_True by blast
  then obtain key where k: "remoteKey rt store opts = Inr key"
    using remoteKey_valid [of store rt opts] by blast
  obtain probe s1 where list: "client (clientState w) (ListObjectsCommand ?b) = (probe, s1)"
    by (cases "client (clientState w) (ListObjectsCommand ?b)")
  from save_sent [OF valid c k list fl] obtain uid parts and w2 w3 :: "'s world" where
    s: "sentBy w ?w' = (ListObjectsCommand ?b, probe) # sentBy w2 w3"
    and r: "ran w2 w3
               (if length (concat chunks) \<le> singleUploadLimit
                then [PutObjectCommand ?b key chunks ''application/zip'' ''Enabled'' ''gzip'']
                else CreateMultipartUploadCommand ?b key ''private'' ''application/zip''
                       # uploadCommands ?b key uid 1 (partsOf chunks)
                       @ [CompleteMultipartUploadCommand ?b key uid parts])
               (fst (save rt store opts w))"
    by (elim exE conjE) (rule that)
  let ?cmds = "CreateMultipartUploadCommand ?b key ''private'' ''application/zip''
                       # uploadCommands ?b key uid 1 (partsOf chunks)
                       @ [CompleteMultipartUploadCommand ?b key uid parts]"
  have r1: "ran w2 w3 ?cmds (fst (save rt store opts w))" using r gt by simp
  have "partBodies (map fst (sentBy w2 w3)) = take (length (sentBy w2 w3) - 1) (partsOf chunks)"
    unfolding ran_prefix [OF r1] by (rule partBodies_take_multipart)
  then have "partBodies (map fst (sentBy w ?w')) = take (length (sentBy w2 w3) - 1) (partsOf chunks)"
    using s by simp
  then show ?thesis by blast
qed

text \<open>
  C10. Every part the stream loop uploads, starting on an empty buffer, has at least
  20 MiB, and less than 20 MiB plus the largest chunk of the stream; the buffer the loop
  leaves when the stream ends, the body of the part uploaded after the loop, has less
  than 20 MiB. So in the multipart upload of \<open>save\<close>, every part but the last one
  uploaded has at least 20 MiB, and every part has less than 20 MiB plus the largest
  chunk.
\<close>

theorem streamLoop_part_sizes:
  "(s3Client store = Some client
      \<and> streamLoop store key uploadId chunks (partNumber, parts, []) w = (r, w') \<longrightarrow>
      (\<forall>body \<in> set (partBodies (map fst (sentBy w w'))).
          partSize \<le> length body
          \<and> (\<forall>m. (\<forall>chunk \<in> set chunks. length chunk \<le> m) \<longrightarrow> length body < partSize + m))
    \<and> (\<forall>partNumber' parts' buffer'. r = Inr (partNumber', parts', buffer') \<longrightarrow>
          length (concat buffer') < partSize))
   \<and> (fst (isValidConfig store opts (w0 :: 's world))
      \<and> fs rt (template (session opts) @ ''.zip'') = Inr chunks
      \<and> singleUploadLimit < length (concat chunks) \<longrightarrow>
      (\<forall>body \<in> set (butlast (partBodies (map fst (sentBy w0 (snd (snd (save rt store opts w0))))))).
          partSize \<le> length body)
    \<and> (\<forall>m. (\<forall>chunk \<in> set chunks. length chunk \<le> m) \<longrightarrow>
          (\<forall>body \<in> set (partBodies (map fst (sentBy w0 (snd (snd (save rt store opts w0)))))).
              length body < partSize + m)))"
proof -
  have zero: "length (concat ([] :: buffer list)) < partSize" using partSize_pos by simp
  have loop1: "partSize \<le> length body"
    if "s3Client store = Some client"
      "streamLoop store key uploadId chunks (partNumber, parts, []) w = (r, w')"
      "body \<in> set (partBodies (map fst (sentBy w w')))" for body
    using streamLoop_bodies [OF that] by (rule loopParts_at_least)
  have loop2: "length body < partSize + m"
    if "s3Client store = Some client"
      "streamLoop store key uploadId chunks (partNumber, parts, []) w = (r, w')"
      "body \<in> set (partBodies (map fst (sentBy w w')))"
      "\<forall>chunk \<in> set chunks. length chunk \<le> m" for body m
    using loopParts_less [OF zero that(4) streamLoop_bodies [OF that(1,2,3)]] .
  have loop3: "length (concat buffer') < partSize"
    if "s3Client store = Some client"
      "streamLoop store key uploadId chunks (partNumber, parts, []) w = (r, w')"
      "r = Inr (partNumber', parts', buffer')" for partNumber' parts' buffer'
    using streamLoop_ran(2) [OF that] loopRest_less [OF zero, of chunks] by simp
  have save1: "partSize \<le> length body"
    if valid: "fst (isValidConfig store opts w0)"
      and fl: "fs rt (template (session opts) @ ''.zip'') = Inr chunks"
      and gt: "singleUploadLimit < length (concat chunks)"
      and b: "body \<in> set (butlast (partBodies (map fst (sentBy w0 (snd (snd (save rt store opts w0)))))))"
    for body
  proof -
    from save_multipart_bodies [OF valid fl gt] obtain k where
      "partBodies (map fst (sentBy w0 (snd (snd (save rt store opts w0))))) = take k (partsOf chunks)"
      by blast
    then have "body \<in> set (butlast (take k (partsOf chunks)))" using b by simp
    then have "body \<in> set (butlast (partsOf chunks))" by (rule in_set_butlast_take)
    then have "body \<in> set (loopParts [] chunks)" by (rule in_butlast_partsOf)
    then show ?thesis by (rule loopParts_at_least)
  qed
  have save2: "length body < partSize + m"
    if valid: "fst (isValidConfig store opts w0)"
      and fl: "fs rt (template (session opts) @ ''.zip'') = Inr chunks"
      and gt: "singleUploadLimit < length (concat chunks)"
      and m: "\<forall>chunk \<in> set chunks. length chunk \<le> m"
      and b: "body \<in> set (partBodies (map fst (sentBy w0 (snd (snd (save rt store opts w0))))))"
    for body m
  proof -
    from save_multipart_bodies [OF valid fl gt] obtain k where
      "partBodies (map fst (sentBy w0 (snd (snd (save rt store opts w0))))) = take k (partsOf chunks)"
      by blast
    then have "body \<in> set (take k (partsOf chunks))" using b by simp
    then have "body \<in> set (partsOf chunks)" by (rule in_set_takeD)
    with m show ?thesis by (rule partsOf_less)
  qed
  show ?thesis
    apply (intro conjI impI ballI allI)
        apply (elim conjE, erule (2) loop1)
       apply (elim conjE, erule (3) loop2)
      apply (elim conjE, erule (2) loop3)
     apply (elim conjE, erule (3) save1)
    apply (elim conjE, erule (4) save2)
    done
qed


lemma demo_loop:
  "streamLoop (demoStore okClient) ''k'' (Some ''upload-1'') fullAndRest (1, [], []) (freshWorld ())
     = (Inr (2, [\<lparr>PartNumber = 1, PartETag = Some ''etag''\<rparr>], [[80, 75, 5]]),
        \<lparr>clientState = (),
         trace = [Sent (UploadPartCommand (Some ''satuin'') ''k'' (Some ''upload-1'') 1
                          (replicate 20971520 0)) (Inr okResponse)]\<rparr>)"
  by (simp add: fullAndRest_def uploadPart_def send_def demoStore_def okClient_def freshWorld_def
        partSize_def Let_def okResponse_def)

theorem streamLoop_part_sizes_witness:
  "partBodies (map fst (sentBy (freshWorld ())
      (snd (streamLoop (demoStore okClient) ''k'' (Some ''upload-1'') fullAndRest (1, [], [])
              (freshWorld ())))))
     = [replicate 20971520 0]
   \<and> partSize \<le> length (replicate 20971520 (0 :: byte))
   \<and> length (replicate 20971520 (0 :: byte)) < partSize + 20971520
   \<and> length (concat [[80, 75, 5 :: byte]]) < partSize"
proof -
  let ?run = "streamLoop (demoStore okClient) ''k'' (Some ''upload-1'') fullAndRest (1, [], [])
                (freshWorld ())"
  have bodies: "partBodies (map fst (sentBy (freshWorld ()) (snd ?run))) = [replicate 20971520 0]"
    unfolding demo_loop by (simp add: sentBy_def freshWorld_def)
  have bound: "\<forall>chunk \<in> set fullAndRest. length chunk \<le> 20971520"
    by (simp add: fullAndRest_def)
  note t = streamLoop_part_sizes [of "demoStore okClient" okClient "''k''" "Some ''upload-1''"
      fullAndRest 1 "[]" "freshWorld ()" "fst ?run" "snd ?run", THEN conjunct1, THEN mp]
  have run: "s3Client (demoStore okClient) = Some okClient \<and> ?run = (fst ?run, snd ?run)"
    by (simp add: demoStore_def)
  have a: "partSize \<le> length (replicate 20971520 (0 :: byte))
           \<and> length (replicate 20971520 (0 :: byte)) < partSize + 20971520"
    using t [OF run, THEN conjunct1, THEN bspec, of "replicate 20971520 0", THEN conjunct1]
      t [OF run, THEN conjunct1, THEN bspec, of "replicate 20971520 0", THEN conjunct2,
         THEN spec, of 20971520]
      bodies bound by simp
  have b: "length (concat [[80, 75, 5 :: byte]]) < partSize"
    using t [OF run, THEN conjunct2, THEN spec, THEN spec, THEN spec,
        of 2 "[\<lparr>PartNumber = 1, PartETag = Some ''etag''\<rparr>]" "[[80, 75, 5]]"]
    unfolding demo_loop by simp
  from bodies a b show ?thesis by (intro conjI) simp_all
qed

end
